theory Spec2Isabelle
  imports Main
begin

section \<open>Python values and library functions used by main.py\<close>

text \<open>
  Exceptions are values. \<open>RequestException\<close> stands for the whole
  \<^verbatim>\<open>requests.RequestException\<close> family (connection errors, timeouts, the
  \<^verbatim>\<open>HTTPError\<close> of \<^verbatim>\<open>raise_for_status\<close>, errors while a body is streamed);
  \<open>IndexError\<close> is raised by an index out of range, \<open>TypeError\<close> by
  \<^verbatim>\<open>os.path.exists(None)\<close> (its \<^verbatim>\<open>os.stat\<close> call rejects \<^verbatim>\<open>None\<close>).
\<close>

datatype error = RequestException | IndexError | TypeError

text \<open>
  The records built by the program are Python dictionaries: association lists in
  insertion order. A key can be missing, or present with the value \<^verbatim>\<open>None\<close>; the two
  are different dictionaries. Text is a list of 8-bit code points.
\<close>

datatype pyval = PNone | PStr string | PList "pyval list" | PDict "(string \<times> pyval) list"

type_synonym dict = "(string \<times> pyval) list"

fun dict_set :: "string \<Rightarrow> pyval \<Rightarrow> dict \<Rightarrow> dict" where
  "dict_set k v [] = [(k, v)]"
| "dict_set k v ((k', v') # d) = (if k' = k then (k, v) # d else (k', v') # dict_set k v d)"

definition dict_get :: "dict \<Rightarrow> string \<Rightarrow> pyval option" where
  "dict_get d k = map_of d k"

text \<open>\<^verbatim>\<open>xs[i]\<close> for a non-negative literal index.\<close>

definition index :: "'a list \<Rightarrow> nat \<Rightarrow> error + 'a" where
  "index xs i = (if i < length xs then Inr (xs ! i) else Inl IndexError)"

definition bind_result :: "error + 'a \<Rightarrow> ('a \<Rightarrow> error + 'b) \<Rightarrow> error + 'b" where
  "bind_result r f = (case r of Inl e \<Rightarrow> Inl e | Inr v \<Rightarrow> f v)"

text \<open>\<^verbatim>\<open>str.split(sep)\<close> for a one-character separator: never the empty list.\<close>

fun split_on :: "char \<Rightarrow> string \<Rightarrow> string list" where
  "split_on sep [] = [[]]"
| "split_on sep (c # cs) =
     (if c = sep then [] # split_on sep cs
      else (case split_on sep cs of [] \<Rightarrow> [[c]] | w # ws \<Rightarrow> (c # w) # ws))"

text \<open>\<^verbatim>\<open>str.strip()\<close>: the code points below 256 for which \<^verbatim>\<open>str.isspace\<close> holds.\<close>

definition is_space :: "char \<Rightarrow> bool" where
  "is_space c = ((of_char c :: nat) \<in> {9, 10, 11, 12, 13, 28, 29, 30, 31, 32, 133, 160})"

definition strip :: "string \<Rightarrow> string" where
  "strip s = rev (dropWhile is_space (rev (dropWhile is_space s)))"

text \<open>\<^verbatim>\<open>s.replace("\xa0", " ")\<close>\<close>

definition replace_nbsp :: "string \<Rightarrow> string" where
  "replace_nbsp s = map (\<lambda>c. if c = CHR 0xA0 then CHR '' '' else c) s"

text \<open>\<^verbatim>\<open>str(n)\<close> for a Python integer.\<close>

definition digit_char :: "nat \<Rightarrow> char" where
  "digit_char d = char_of (48 + d)"

function digits :: "nat \<Rightarrow> string" where
  "digits n = (if n < 10 then [digit_char n] else digits (n div 10) @ [digit_char (n mod 10)])"
  by pat_completeness auto
termination
  by (relation "measure (\<lambda>n. n)") auto

declare digits.simps [simp del]

definition str :: "int \<Rightarrow> string" where
  "str i = (if i < 0 then CHR ''-'' # digits (nat (- i)) else digits (nat i))"

section \<open>The outside world\<close>

text \<open>
  What \<^verbatim>\<open>sess.post\<close> or \<^verbatim>\<open>sess.get\<close> does: it raises a \<open>RequestException\<close> before
  any response arrives, or it returns a response with a status code and a payload.
  \<^verbatim>\<open>raise_for_status\<close> raises for the 4xx and 5xx codes.
\<close>

datatype 'a http = ConnectionFailed | Response nat 'a

definition raise_for_status :: "nat \<Rightarrow> bool" where
  "raise_for_status status = (400 \<le> status \<and> status < 600)"

text \<open>
  The body of a \<^verbatim>\<open>GetFile.do\<close> response as \<^verbatim>\<open>iter_content\<close> delivers it: the chunks
  received, and whether the stream then breaks with a \<open>RequestException\<close> instead of
  ending.
\<close>

record file_body =
  chunks :: "string list"
  stream_breaks :: bool

text \<open>The local disk: file path to content. File operations themselves succeed.\<close>

type_synonym files = "string \<Rightarrow> string option"

text \<open>
  The Azure client, one answer per call of \<^verbatim>\<open>upload_pdf_to_azure\<close>: whether building the
  client raises, what \<^verbatim>\<open>exists()\<close> answers (\<open>None\<close>: it raises), whether
  \<^verbatim>\<open>delete_blob\<close> and \<^verbatim>\<open>upload_blob\<close> raise, and the URL of the container.
\<close>

record blob_service =
  connect_fails :: bool
  blob_exists :: "bool option"
  delete_fails :: bool
  upload_fails :: bool
  container_url :: string

text \<open>
  What one call of \<^verbatim>\<open>parse_order_row\<close> meets: the value of \<^verbatim>\<open>uuid.uuid4().hex\<close>, the
  answer of the portal to the posted file path, and the Azure client.
\<close>

record worker_env =
  uuid_hex :: string
  getfile :: "string \<Rightarrow> file_body http"
  azure :: blob_service

section \<open>The parsed page\<close>

text \<open>
  The page after \<^verbatim>\<open>BeautifulSoup\<close>: \<open>h5s\<close> is \<^verbatim>\<open>soup.find_all("h5")\<close>, each with its
  text and the texts of its \<^verbatim>\<open>find_all("span")\<close>; \<open>first_table\<close> is
  \<^verbatim>\<open>soup.find("table")\<close> with its \<^verbatim>\<open>find_all("tr")\<close>; a row is its
  \<^verbatim>\<open>find_all("td")\<close>; a cell has its text and its first \<^verbatim>\<open>a\<close> element, of which only
  \<^verbatim>\<open>get("onclick")\<close> is read.
\<close>

record anchor =
  onclick :: "string option"

record cell =
  cell_text :: string
  first_a :: "anchor option"

type_synonym row = "cell list"

record heading =
  heading_text :: string
  spans :: "string list"

record page =
  h5s :: "heading list"
  first_table :: "row list option"

section \<open>Document Fetcher, Archive Uploader, cleanup\<close>

definition PDF_DIR :: string where
  "PDF_DIR = ''pdf''"

definition download_pdf :: "worker_env \<Rightarrow> string \<Rightarrow> files \<Rightarrow> string option \<times> files" where
  "download_pdf w pdf_url fs =
    (let file_path = PDF_DIR @ ''/'' @ uuid_hex w @ ''.pdf'' in
     case getfile w pdf_url of
       ConnectionFailed \<Rightarrow> (None, fs)
     | Response status body \<Rightarrow>
         if raise_for_status status then (None, fs)
         else
           let written = fs(file_path \<mapsto> concat (filter (\<lambda>chunk. chunk \<noteq> []) (chunks body)))
           in if stream_breaks body then (None, written) else (Some file_path, written))"

definition upload_pdf_to_azure :: "blob_service \<Rightarrow> files \<Rightarrow> string \<Rightarrow> string option" where
  "upload_pdf_to_azure az fs file_path =
    (let blob_name = last (split_on CHR ''/'' file_path) in
     if connect_fails az then None
     else (case blob_exists az of
       None \<Rightarrow> None
     | Some present \<Rightarrow>
         if present \<and> delete_fails az then None
         else (case fs file_path of
           None \<Rightarrow> None
         | Some data \<Rightarrow>
             if upload_fails az then None
             else Some (container_url az @ ''/'' @ blob_name))))"

definition clean_up :: "string option \<Rightarrow> files \<Rightarrow> error + files" where
  "clean_up path fs =
    (case path of
       None \<Rightarrow> Inl TypeError
     | Some p \<Rightarrow> Inr (if fs p \<noteq> None then fs(p := None) else fs))"

section \<open>Order Row Extractor\<close>

definition url_value :: "string option \<Rightarrow> pyval" where
  "url_value u = (case u of None \<Rightarrow> PNone | Some s \<Rightarrow> PStr s)"

text \<open>The dictionary literal \<^verbatim>\<open>temp\<close>: five cells read by position.\<close>

definition display_fields :: "row \<Rightarrow> error + dict" where
  "display_fields cells =
     bind_result (index cells 0) (\<lambda>c0.
     bind_result (index cells 1) (\<lambda>c1.
     bind_result (index cells 2) (\<lambda>c2.
     bind_result (index cells 3) (\<lambda>c3.
     bind_result (index cells 4) (\<lambda>c4.
       Inr [(''snumber'', PStr (strip (cell_text c0))),
            (''case_number'', PStr (strip (cell_text c1))),
            (''date_of_order'', PStr (strip (cell_text c2))),
            (''corrigenda_link'', PStr (strip (cell_text c3))),
            (''hindi_order'', PStr (strip (cell_text c4)))])))))"

text \<open>The branch taken when the case-number cell has a link with a non-empty \<^verbatim>\<open>onclick\<close>.\<close>

definition fetch_document :: "worker_env \<Rightarrow> files \<Rightarrow> dict \<Rightarrow> string \<Rightarrow> (error + dict) \<times> files" where
  "fetch_document w fs temp onclick_text =
    (case index (split_on (CHR 0x27) onclick_text) 1 of
       Inl e \<Rightarrow> (Inl e, fs)
     | Inr pdf_path \<Rightarrow>
        (case download_pdf w pdf_path fs of
           (downloaded_file_path, fs1) \<Rightarrow>
             (let temp1 =
                (case downloaded_file_path of
                   None \<Rightarrow> temp
                 | Some p \<Rightarrow>
                     if p \<noteq> []
                     then dict_set ''url'' (url_value (upload_pdf_to_azure (azure w) fs1 p)) temp
                     else temp)
              in (case clean_up downloaded_file_path fs1 of
                    Inl e \<Rightarrow> (Inl e, fs1)
                  | Inr fs2 \<Rightarrow> (Inr temp1, fs2)))))"

definition parse_order_row :: "worker_env \<Rightarrow> files \<Rightarrow> row \<Rightarrow> (error + dict) \<times> files" where
  "parse_order_row w fs cells =
    (case display_fields cells of
       Inl e \<Rightarrow> (Inl e, fs)
     | Inr temp \<Rightarrow>
        (case first_a (cells ! 1) of
           None \<Rightarrow> (Inr (dict_set ''url'' PNone temp), fs)
         | Some pdf_link \<Rightarrow>
            (case onclick pdf_link of
               None \<Rightarrow> (Inr (dict_set ''url'' PNone temp), fs)
             | Some s \<Rightarrow>
                 if s \<noteq> [] then fetch_document w fs temp s
                 else (Inr (dict_set ''url'' PNone temp), fs))))"

section \<open>Case Detail Resolver\<close>

text \<open>
  What one call of \<^verbatim>\<open>get_case_details\<close> meets: the answer of the portal to the lookup,
  the surroundings of the worker that extracts row \<open>i\<close>, the order in which the workers
  of the pool get to run their rows, and the local disk at the start.
\<close>

record case_env =
  reply :: "page http"
  worker :: "nat \<Rightarrow> worker_env"
  completion :: "nat list"
  disk :: files

text \<open>The session with the portal: an answer for each posted form (ctype, regno, regyr, japtcha).\<close>

type_synonym portal = "string \<Rightarrow> string \<Rightarrow> string \<Rightarrow> string \<Rightarrow> case_env"

text \<open>
  \<^verbatim>\<open>list(executor.map(f, items))\<close> on a \<^verbatim>\<open>ThreadPoolExecutor\<close>. Task \<open>i\<close> is the call of
  \<^verbatim>\<open>f\<close> on item \<open>i\<close>; the tasks share the disk and run one after the other in the order
  \<open>order\<close> (a task that \<open>order\<close> does not list runs after the listed ones), so task \<open>i\<close>
  starts on the disk that the tasks before it have left. The results are handed out by
  position of the item, and the first one that is an exception is raised again.
\<close>

fun fs_when_run :: "(nat \<Rightarrow> files \<Rightarrow> 'r \<times> files) \<Rightarrow> nat list \<Rightarrow> nat \<Rightarrow> files \<Rightarrow> files" where
  "fs_when_run task [] i fs = fs"
| "fs_when_run task (j # order) i fs =
     (if j = i then fs else fs_when_run task order i (snd (task j fs)))"

fun results_in_order :: "(error + 'a) list \<Rightarrow> error + 'a list" where
  "results_in_order [] = Inr []"
| "results_in_order (r # rs) =
     (case r of
        Inl e \<Rightarrow> Inl e
      | Inr v \<Rightarrow> (case results_in_order rs of Inl e \<Rightarrow> Inl e | Inr vs \<Rightarrow> Inr (v # vs)))"

definition executor_map ::
  "(nat \<Rightarrow> files \<Rightarrow> (error + 'a) \<times> files) \<Rightarrow> nat \<Rightarrow> nat list \<Rightarrow> files \<Rightarrow> error + 'a list" where
  "executor_map task n order fs =
     results_in_order
       (map (\<lambda>i. fst (task i (fs_when_run task (filter (\<lambda>j. j < n) order) i fs))) [0..<n])"

definition get_case_details ::
  "portal \<Rightarrow> string \<Rightarrow> string \<Rightarrow> string \<Rightarrow> string \<Rightarrow> error + dict option" where
  "get_case_details sess ctype regno regyr japtcha =
    (let env = sess ctype regno regyr japtcha in
     case reply env of
       ConnectionFailed \<Rightarrow> Inr None
     | Response status soup \<Rightarrow>
         if raise_for_status status then Inr None
         else
           let all_heading = h5s soup in
           if length all_heading < 2 then Inr None
           else
             let data = [(''parties'', PStr (replace_nbsp (strip (heading_text (all_heading ! 0))))),
                         (''status'', PStr []),
                         (''next_date'', PStr []),
                         (''orders'', PList [])];
                 rows = spans (all_heading ! 1);
                 data1 = (if length rows \<ge> 2
                          then dict_set ''next_date'' (PStr (strip (rows ! 1)))
                                 (dict_set ''status'' (PStr (strip (rows ! 0))) data)
                          else data)
             in (case first_table soup of
                   None \<Rightarrow> Inr (Some data1)
                 | Some trs \<Rightarrow>
                    (case executor_map (\<lambda>i fs. parse_order_row (worker env i) fs (tl trs ! i))
                            (length (tl trs)) (completion env) (disk env) of
                       Inl e \<Rightarrow> if e = RequestException then Inr None else Inl e
                     | Inr orders \<Rightarrow>
                         Inr (Some (dict_set ''orders'' (PList (map PDict orders)) data1)))))"

text \<open>
  \<^verbatim>\<open>get_captcha\<close>: the payload of the launch page is the text of the element with
  \<^verbatim>\<open>onclick="playAudio()"\<close>, if there is one.
\<close>

definition get_captcha :: "string option http \<Rightarrow> string option" where
  "get_captcha launch =
    (case launch of
       ConnectionFailed \<Rightarrow> None
     | Response status captcha_element \<Rightarrow>
         if raise_for_status status then None
         else (case captcha_element of None \<Rightarrow> None | Some t \<Rightarrow> Some (strip t)))"

section \<open>Enumeration Driver\<close>

definition FROM_YEAR :: int where
  "FROM_YEAR = 2023"

definition REQUIRED_CASE_TYPES :: "string list" where
  "REQUIRED_CASE_TYPES =
    [''RFA(OS)(COMM)'', ''FAO(OS) (COMM)'', ''EFA(OS)  (COMM)'', ''EFA(COMM)'', ''RFA(COMM)'',
     ''FAO(COMM)'', ''CS(COMM)'', ''O.M.P.(I) (COMM.)'', ''O.M.P. (E) (COMM.)'',
     ''O.M.P. (J) (COMM.)'', ''O.M.P. (T) (COMM.)'', ''O.M.P. (COMM)'', ''ARB. A. (COMM.)'',
     ''C.O. (COMM.IPD-TM)'', ''C.O.(COMM.IPD-CR)'', ''C.O.(COMM.IPD-PAT)'', ''C.A.(COMM.IPD-GI)'',
     ''C.A.(COMM.IPD-PAT)'', ''C.A.(COMM.IPD-PV)'', ''C.A.(COMM.IPD-TM)'']"

text \<open>The MongoDB collection is the list of the documents inserted so far.\<close>

definition save_to_mongodb :: "pyval \<Rightarrow> pyval list \<Rightarrow> pyval list" where
  "save_to_mongodb data coll = coll @ [data]"

text \<open>
  Lines 169 to 174: what one answer of the resolver does to the miss counter and to the
  collection. \<^verbatim>\<open>not result\<close> holds for \<^verbatim>\<open>None\<close> and for an empty dictionary.
\<close>

definition after_probe ::
  "string \<Rightarrow> int \<Rightarrow> int \<Rightarrow> dict option \<Rightarrow> int \<Rightarrow> pyval list \<Rightarrow> int \<times> pyval list" where
  "after_probe case_type year case_no result continuous_no_case coll =
    (case result of
       None \<Rightarrow> (continuous_no_case + 1, coll)
     | Some d \<Rightarrow>
         if d = [] then (continuous_no_case + 1, coll)
         else (continuous_no_case,
               save_to_mongodb
                 (PDict (dict_set ''case_info''
                    (PStr (case_type @ ''/'' @ str case_no @ ''/'' @ str year)) d))
                 coll))"

text \<open>
  The \<^verbatim>\<open>while True\<close> loop. It may run forever: the value \<open>None\<close>. When it ends, it
  gives the exception that ended it (if one did), the last case number probed, the miss
  counter and the collection.
\<close>

partial_function (option) inner_loop ::
  "portal \<Rightarrow> string \<Rightarrow> string \<Rightarrow> int \<Rightarrow> int \<Rightarrow> int \<Rightarrow> pyval list
     \<Rightarrow> (error option \<times> int \<times> int \<times> pyval list) option" where
  "inner_loop sess japtcha case_type year case_no continuous_no_case coll =
    (case get_case_details sess case_type (str case_no) (str year) japtcha of
       Inl e \<Rightarrow> Some (Some e, case_no, continuous_no_case, coll)
     | Inr result \<Rightarrow>
        (case after_probe case_type year case_no result continuous_no_case coll of
           (misses, coll') \<Rightarrow>
             if misses = 20 then Some (None, case_no, misses, coll')
             else inner_loop sess japtcha case_type year (case_no + 1) misses coll'))"

declare inner_loop.simps [code]

text \<open>The \<^verbatim>\<open>for case_type in REQUIRED_CASE_TYPES\<close> loop over the types still to visit.\<close>

fun for_case_types ::
  "portal \<Rightarrow> string \<Rightarrow> int \<Rightarrow> string list \<Rightarrow> pyval list \<Rightarrow> (error option \<times> pyval list) option" where
  "for_case_types sess japtcha year [] coll = Some (None, coll)"
| "for_case_types sess japtcha year (case_type # rest) coll =
     (case inner_loop sess japtcha case_type year 1 0 coll of
        None \<Rightarrow> None
      | Some (Some e, _, _, coll') \<Rightarrow> Some (Some e, coll')
      | Some (None, _, _, coll') \<Rightarrow> for_case_types sess japtcha year rest coll')"

text \<open>The \<^verbatim>\<open>while FROM_YEAR >= 2000\<close> loop.\<close>

function while_years ::
  "portal \<Rightarrow> string \<Rightarrow> int \<Rightarrow> pyval list \<Rightarrow> (error option \<times> pyval list) option" where
  "while_years sess japtcha year coll =
    (if year \<ge> 2000
     then (case for_case_types sess japtcha year REQUIRED_CASE_TYPES coll of
             None \<Rightarrow> None
           | Some (Some e, coll') \<Rightarrow> Some (Some e, coll')
           | Some (None, coll') \<Rightarrow> while_years sess japtcha (year - 1) coll')
     else Some (None, coll))"
  by pat_completeness auto
termination
  by (relation "measure (\<lambda>(sess, japtcha, year, coll). nat (year - 1999))") auto

declare while_years.simps [simp del]

text \<open>The main block: the crawl starts only with a captcha code that is not empty.\<close>

definition main :: "string option http \<Rightarrow> portal \<Rightarrow> (error option \<times> pyval list) option" where
  "main launch sess =
    (case get_captcha launch of
       None \<Rightarrow> Some (None, [])
     | Some captcha_code \<Rightarrow>
         if captcha_code = [] then Some (None, [])
         else while_years sess captcha_code FROM_YEAR [])"

section \<open>Notions used to state the properties\<close>

text \<open>
  The URL that fetching and uploading give for the link of a row: \<open>None\<close> when the
  case-number cell has no link, when its \<^verbatim>\<open>onclick\<close> is missing or has no quoted path,
  when \<^verbatim>\<open>download_pdf\<close> returns no path, or when \<^verbatim>\<open>upload_pdf_to_azure\<close> returns no URL.
\<close>

definition pipeline_url :: "worker_env \<Rightarrow> files \<Rightarrow> row \<Rightarrow> string option" where
  "pipeline_url w fs cells =
    (case first_a (cells ! 1) of
       None \<Rightarrow> None
     | Some pdf_link \<Rightarrow>
        (case onclick pdf_link of
           None \<Rightarrow> None
         | Some s \<Rightarrow>
            (case index (split_on (CHR 0x27) s) 1 of
               Inl e \<Rightarrow> None
             | Inr pdf_path \<Rightarrow>
                (case download_pdf w pdf_path fs of
                   (None, fs1) \<Rightarrow> None
                 | (Some path, fs1) \<Rightarrow> upload_pdf_to_azure (azure w) fs1 path))))"

text \<open>
  The number of lookups answered "no case" among the \<open>k\<close> case numbers
  \<open>n, n + 1, ..., n + k - 1\<close> of one type and year.
\<close>

fun miss_count :: "portal \<Rightarrow> string \<Rightarrow> string \<Rightarrow> int \<Rightarrow> int \<Rightarrow> nat \<Rightarrow> int" where
  "miss_count sess japtcha case_type year n 0 = 0"
| "miss_count sess japtcha case_type year n (Suc k) =
     (if get_case_details sess case_type (str n) (str year) japtcha = Inr None then 1 else 0)
     + miss_count sess japtcha case_type year (n + 1) k"

text \<open>
  The documents that the lookups of the case numbers \<open>n, ..., n + k - 1\<close> put into the
  collection: one for each lookup that gives a record, in the order of the case numbers.
\<close>

fun hit_docs :: "portal \<Rightarrow> string \<Rightarrow> string \<Rightarrow> int \<Rightarrow> int \<Rightarrow> nat \<Rightarrow> pyval list" where
  "hit_docs sess japtcha case_type year n 0 = []"
| "hit_docs sess japtcha case_type year n (Suc k) =
     (case get_case_details sess case_type (str n) (str year) japtcha of
        Inr (Some d) \<Rightarrow>
          [PDict (dict_set ''case_info''
                    (PStr (case_type @ ''/'' @ str n @ ''/'' @ str year)) d)]
      | _ \<Rightarrow> [])
     @ hit_docs sess japtcha case_type year (n + 1) k"

text \<open>
  The dictionary \<^verbatim>\<open>data\<close> of \<^verbatim>\<open>get_case_details\<close> as it stands before the table is looked
  at (lines 121 to 131).
\<close>

definition heading_data :: "page \<Rightarrow> dict" where
  "heading_data soup =
     (let data = [(''parties'', PStr (replace_nbsp (strip (heading_text (h5s soup ! 0))))),
                  (''status'', PStr []), (''next_date'', PStr []), (''orders'', PList [])];
          rows = spans (h5s soup ! 1)
      in if length rows \<ge> 2
         then dict_set ''next_date'' (PStr (strip (rows ! 1)))
                (dict_set ''status'' (PStr (strip (rows ! 0))) data)
         else data)"

text \<open>
  The document stored for a resolved case: the record with \<^verbatim>\<open>case_info\<close> added (lines
  172 and 173).
\<close>

definition stored_document :: "string \<Rightarrow> int \<Rightarrow> int \<Rightarrow> dict \<Rightarrow> pyval" where
  "stored_document case_type case_no year d =
     PDict (dict_set ''case_info'' (PStr (case_type @ ''/'' @ str case_no @ ''/'' @ str year)) d)"

section \<open>Concrete inputs\<close>

definition plain_cell :: "string \<Rightarrow> cell" where
  "plain_cell t = \<lparr>cell_text = t, first_a = None\<rparr>"

definition link_cell :: "string \<Rightarrow> string \<Rightarrow> cell" where
  "link_cell t oc = \<lparr>cell_text = t, first_a = Some \<lparr>onclick = Some oc\<rparr>\<rparr>"

text \<open>The \<^verbatim>\<open>onclick\<close> text \<^verbatim>\<open>open('a.pdf')\<close>.\<close>

definition quoted_call :: string where
  "quoted_call = ''open('' @ [CHR 0x27] @ ''a.pdf'' @ [CHR 0x27] @ '')''"

definition good_azure :: blob_service where
  "good_azure = \<lparr>connect_fails = False, blob_exists = Some False, delete_fails = False,
     upload_fails = False, container_url = ''https://acct.blob.core.windows.net/orders''\<rparr>"

text \<open>Three workers: the download succeeds, is refused with status 500, breaks after one chunk.\<close>

definition w_ok :: worker_env where
  "w_ok = \<lparr>uuid_hex = ''00ff'',
     getfile = (\<lambda>p. Response 200 \<lparr>chunks = [''%PDF'', [], ''-1.4''], stream_breaks = False\<rparr>),
     azure = good_azure\<rparr>"

definition w_500 :: worker_env where
  "w_500 = \<lparr>uuid_hex = ''00ff'',
     getfile = (\<lambda>p. Response 500 \<lparr>chunks = [], stream_breaks = False\<rparr>),
     azure = good_azure\<rparr>"

definition w_broken :: worker_env where
  "w_broken = \<lparr>uuid_hex = ''00ff'',
     getfile = (\<lambda>p. Response 200 \<lparr>chunks = [''%PDF''], stream_breaks = True\<rparr>),
     azure = good_azure\<rparr>"

definition link_row :: row where
  "link_row = [plain_cell ''1'', link_cell '' CS(COMM) 1/2023 '' quoted_call,
               plain_cell ''01/02/2023'', plain_cell [], plain_cell []]"

definition plain_row :: row where
  "plain_row = [plain_cell ''2'', plain_cell ''CS(COMM) 1/2023'',
                plain_cell ''03/04/2023'', plain_cell [], plain_cell []]"

definition short_row :: row where
  "short_row = [plain_cell ''3'', plain_cell ''CS(COMM) 1/2023'',
                plain_cell ''05/06/2023'', plain_cell []]"

definition link_row_record :: dict where
  "link_row_record =
     [(''snumber'', PStr ''1''), (''case_number'', PStr ''CS(COMM) 1/2023''),
      (''date_of_order'', PStr ''01/02/2023''), (''corrigenda_link'', PStr []),
      (''hindi_order'', PStr []),
      (''url'', PStr ''https://acct.blob.core.windows.net/orders/00ff.pdf'')]"

definition plain_row_record :: dict where
  "plain_row_record =
     [(''snumber'', PStr ''2''), (''case_number'', PStr ''CS(COMM) 1/2023''),
      (''date_of_order'', PStr ''03/04/2023''), (''corrigenda_link'', PStr []),
      (''hindi_order'', PStr []), (''url'', PNone)]"

text \<open>
  A case page: parties, a second heading with the given spans, and the given table (its
  first row is the header, which has no \<^verbatim>\<open>td\<close>).
\<close>

definition case_page :: "string list \<Rightarrow> row list option \<Rightarrow> page" where
  "case_page sp rows =
     \<lparr>h5s = [\<lparr>heading_text = ''A vs B'', spans = []\<rparr>, \<lparr>heading_text = [], spans = sp\<rparr>],
      first_table = map_option (\<lambda>rs. [] # rs) rows\<rparr>"

definition answer :: "page \<Rightarrow> worker_env \<Rightarrow> nat list \<Rightarrow> case_env" where
  "answer pg w order =
     \<lparr>reply = Response 200 pg, worker = (\<lambda>i. w), completion = order, disk = Map.empty\<rparr>"

definition no_answer :: case_env where
  "no_answer =
     \<lparr>reply = ConnectionFailed, worker = (\<lambda>i. w_ok), completion = [], disk = Map.empty\<rparr>"

text \<open>Portals: all but the last give the same answer to every lookup.\<close>

definition portal_down :: portal where
  "portal_down ctype regno regyr japtcha = no_answer"


definition portal_one_span :: portal where
  "portal_one_span ctype regno regyr japtcha = answer (case_page [''Pending''] None) w_ok []"

definition portal_short_row :: portal where
  "portal_short_row ctype regno regyr japtcha =
     answer (case_page [''Pending'', ''12-05-2024''] (Some [plain_row, short_row])) w_ok []"

definition portal_refused_download :: portal where
  "portal_refused_download ctype regno regyr japtcha =
     answer (case_page [''Pending'', ''12-05-2024''] (Some [link_row])) w_500 []"

definition portal_two_rows :: portal where
  "portal_two_rows ctype regno regyr japtcha =
     answer (case_page [''Pending'', ''12-05-2024''] (Some [link_row, plain_row])) w_ok [1, 0]"

text \<open>Only case number 20 exists.\<close>

definition portal_only_20 :: portal where
  "portal_only_20 ctype regno regyr japtcha =
     (if regno = ''20'' then answer (case_page [''Pending'', ''12-05-2024''] None) w_ok []
      else no_answer)"

definition case_data :: "string \<Rightarrow> string \<Rightarrow> dict" where
  "case_data st nd =
     [(''parties'', PStr ''A vs B''), (''status'', PStr st),
      (''next_date'', PStr nd), (''orders'', PList [])]"

definition two_rows_data :: dict where
  "two_rows_data =
     [(''parties'', PStr ''A vs B''), (''status'', PStr ''Pending''),
      (''next_date'', PStr ''12-05-2024''),
      (''orders'', PList [PDict link_row_record, PDict plain_row_record])]"

text \<open>The same portal with the rows extracted in another order.\<close>

definition reordered :: "nat list \<Rightarrow> portal \<Rightarrow> portal" where
  "reordered order sess = (\<lambda>ctype regno regyr japtcha. (sess ctype regno regyr japtcha)\<lparr>completion := order\<rparr>)"

text \<open>The document stored for case number 20 of type \<^verbatim>\<open>CS(COMM)\<close> and year 2023.\<close>

definition case_20_doc :: pyval where
  "case_20_doc =
     PDict [(''parties'', PStr ''A vs B''), (''status'', PStr ''Pending''),
            (''next_date'', PStr ''12-05-2024''), (''orders'', PList []),
            (''case_info'', PStr ''CS(COMM)/20/2023'')]"

definition launch_ok :: "string option http" where
  "launch_ok = Response 200 (Some ''x7k2'')"

section \<open>Document Fetcher\<close>

lemma download_pdf_refused_keeps_disk:
  "getfile w p = ConnectionFailed \<or> (\<exists>status body. getfile w p = Response status body \<and> raise_for_status status)
   \<Longrightarrow> download_pdf w p fs = (None, fs)"
  by (auto simp: download_pdf_def)

text \<open>
  C8. The claim: any transport error or non-success status yields "no file" and leaves no
  truncated local file behind; in particular a transport failure in the middle of the
  stream leaves no partial file. Evaluated at a response with status 200 whose stream
  breaks after the chunk \<^verbatim>\<open>%PDF\<close>, on an empty disk: \<^verbatim>\<open>download_pdf\<close> returns \<^verbatim>\<open>None\<close>, and the
  file \<^verbatim>\<open>pdf/00ff.pdf\<close> is on the disk with the truncated content, its path known to no
  caller.
\<close>

theorem download_pdf_leaves_partial_file:
  "fst (download_pdf w_broken ''a.pdf'' Map.empty) = None
   \<and> snd (download_pdf w_broken ''a.pdf'' Map.empty) ''pdf/00ff.pdf'' = Some ''%PDF''"
  by (simp add: download_pdf_def w_broken_def PDF_DIR_def raise_for_status_def)

section \<open>Order Row Extractor: the fields of a record\<close>

lemma display_fields_short: "length cells < 5 \<Longrightarrow> display_fields cells = Inl IndexError"
  by (auto simp: display_fields_def index_def bind_result_def)

lemma display_fields_long:
  "5 \<le> length cells \<Longrightarrow>
     display_fields cells =
       Inr [(''snumber'', PStr (strip (cell_text (cells ! 0)))),
            (''case_number'', PStr (strip (cell_text (cells ! 1)))),
            (''date_of_order'', PStr (strip (cell_text (cells ! 2)))),
            (''corrigenda_link'', PStr (strip (cell_text (cells ! 3)))),
            (''hindi_order'', PStr (strip (cell_text (cells ! 4))))]"
  by (auto simp: display_fields_def index_def bind_result_def)

lemma display_fields_cases:
  "display_fields cells = Inl IndexError \<or>
   (\<exists>a b c d e. display_fields cells =
       Inr [(''snumber'', a), (''case_number'', b), (''date_of_order'', c),
            (''corrigenda_link'', d), (''hindi_order'', e)])"
  using display_fields_short [of cells] display_fields_long [of cells]
  by (cases "length cells < 5") auto

lemma upload_url_nonempty: "upload_pdf_to_azure az fs p = Some u \<Longrightarrow> u \<noteq> []"
  by (auto simp: upload_pdf_to_azure_def Let_def split: option.splits if_splits)

lemma download_pdf_path_nonempty: "download_pdf w p fs = (Some path, fs1) \<Longrightarrow> path \<noteq> []"
  by (auto simp: download_pdf_def Let_def PDF_DIR_def split: http.splits if_splits)

lemma url_value_nonempty: "(\<And>s. u = Some s \<Longrightarrow> s \<noteq> []) \<Longrightarrow> url_value u \<noteq> PStr []"
  by (cases u) (auto simp: url_value_def)

lemma fetch_document_url:
  assumes "fst (fetch_document w fs temp s) = Inr r"
    and "temp = [(''snumber'', a), (''case_number'', b), (''date_of_order'', c),
            (''corrigenda_link'', d), (''hindi_order'', e)]"
  shows "\<exists>p path fs1 u. index (split_on (CHR 0x27) s) 1 = Inr p
          \<and> download_pdf w p fs = (Some path, fs1)
          \<and> upload_pdf_to_azure (azure w) fs1 path = u
          \<and> dict_get r ''url'' = Some (url_value u)"
proof (cases "index (split_on (CHR 0x27) s) 1")
  case (Inl x)
  then show ?thesis using assms(1) by (simp add: fetch_document_def)
next
  case (Inr p)
  obtain dl fs1 where d: "download_pdf w p fs = (dl, fs1)" by (cases "download_pdf w p fs")
  show ?thesis
  proof (cases dl)
    case None
    then show ?thesis using assms(1) Inr d by (simp add: fetch_document_def clean_up_def)
  next
    case (Some path)
    have ne: "path \<noteq> []" using d Some download_pdf_path_nonempty by blast
    have "r = dict_set ''url'' (url_value (upload_pdf_to_azure (azure w) fs1 path)) temp"
      using assms(1) Inr d Some ne by (simp add: fetch_document_def clean_up_def)
    then have "dict_get r ''url'' = Some (url_value (upload_pdf_to_azure (azure w) fs1 path))"
      by (simp add: assms(2) dict_get_def)
    then show ?thesis using Inr d Some by simp
  qed
qed

text \<open>
  C3, as amended. Whenever the extractor gives a record, the record has the key \<^verbatim>\<open>url\<close>.
  Its value is a URL string exactly when the case-number cell has a link whose
  \<^verbatim>\<open>onclick\<close> holds a quoted path, \<^verbatim>\<open>download_pdf\<close> returned a path and
  \<^verbatim>\<open>upload_pdf_to_azure\<close> returned a URL; it is the null value \<^verbatim>\<open>None\<close> when there is no
  link or the upload failed. It is never the empty string.
\<close>

theorem url_field_of_order_record:
  assumes "fst (parse_order_row w fs cells) = Inr r"
  shows "dict_get r ''url'' = Some (url_value (pipeline_url w fs cells))
         \<and> dict_get r ''url'' \<noteq> Some (PStr [])"
proof -
  from assms obtain a b c d e where
    temp: "display_fields cells = Inr [(''snumber'', a), (''case_number'', b), (''date_of_order'', c),
            (''corrigenda_link'', d), (''hindi_order'', e)]" (is "_ = Inr ?temp")
    using display_fields_cases [of cells] by (auto simp: parse_order_row_def)
  have none: "dict_get (dict_set ''url'' PNone ?temp) ''url'' = Some PNone"
    by (simp add: dict_get_def)
  have first: "dict_get r ''url'' = Some (url_value (pipeline_url w fs cells))"
  proof (cases "first_a (cells ! 1)")
    case None
    then show ?thesis using assms temp none
      by (simp add: parse_order_row_def pipeline_url_def url_value_def)
  next
    case (Some pdf_link)
    note link = Some
    show ?thesis
    proof (cases "onclick pdf_link")
      case None
      then show ?thesis using assms temp none link
        by (simp add: parse_order_row_def pipeline_url_def url_value_def)
    next
      case (Some s)
      show ?thesis
      proof (cases "s = []")
        case True
        then show ?thesis using assms temp none link Some
          by (simp add: parse_order_row_def pipeline_url_def url_value_def index_def)
      next
        case False
        then have "fst (fetch_document w fs ?temp s) = Inr r"
          using assms temp link Some by (simp add: parse_order_row_def)
        from fetch_document_url [OF this refl]
        show ?thesis using link Some by (auto simp: pipeline_url_def)
      qed
    qed
  qed
  have "url_value (pipeline_url w fs cells) \<noteq> PStr []"
    by (rule url_value_nonempty)
       (auto simp: pipeline_url_def split: option.splits sum.splits prod.splits
             dest: upload_url_nonempty)
  with first show ?thesis by simp
qed

theorem url_field_of_order_record_witness:
  "fst (parse_order_row w_ok Map.empty link_row) = Inr link_row_record
   \<and> dict_get link_row_record ''url'' = Some (url_value (pipeline_url w_ok Map.empty link_row))
   \<and> pipeline_url w_ok Map.empty link_row = Some ''https://acct.blob.core.windows.net/orders/00ff.pdf''"
proof -
  have h: "fst (parse_order_row w_ok Map.empty link_row) = Inr link_row_record"
    by code_simp
  have p: "pipeline_url w_ok Map.empty link_row = Some ''https://acct.blob.core.windows.net/orders/00ff.pdf''"
    by code_simp
  show ?thesis using h p url_field_of_order_record [OF h] by simp
qed

text \<open>
  C3 as stated says that without a link the key is absent from the record, not null. For
  a row of five plain cells the record has the key, with the value \<^verbatim>\<open>None\<close>.
\<close>

theorem url_key_present_with_null_counterexample:
  "fst (parse_order_row w_ok Map.empty plain_row) = Inr plain_row_record
   \<and> dict_get plain_row_record ''url'' = Some PNone"
  by code_simp

text \<open>
  A failed upload is absorbed: the extractor returns the record, with the null value for
  \<^verbatim>\<open>url\<close>.
\<close>

lemma failed_upload_gives_null_url:
  assumes "5 \<le> length cells"
    and "first_a (cells ! 1) = Some pdf_link"
    and "onclick pdf_link = Some s"
    and "index (split_on (CHR 0x27) s) 1 = Inr p"
    and "download_pdf w p fs = (Some path, fs1)"
    and "upload_pdf_to_azure (azure w) fs1 path = None"
  shows "\<exists>r. fst (parse_order_row w fs cells) = Inr r \<and> dict_get r ''url'' = Some PNone"
proof -
  have s: "s \<noteq> []" using assms(4) by (auto simp: index_def)
  have path: "path \<noteq> []" using assms(5) by (rule download_pdf_path_nonempty)
  show ?thesis
    using assms s path display_fields_long [OF assms(1)]
    by (simp add: parse_order_row_def fetch_document_def clean_up_def url_value_def dict_get_def)
qed

section \<open>Case Detail Resolver: rows, headings, exceptions\<close>

lemma download_pdf_result_indep: "fst (download_pdf w p fs) = fst (download_pdf w p fs')"
  by (simp add: download_pdf_def Let_def split: http.splits)

lemma download_pdf_file_present:
  "download_pdf w p fs = (Some path, fs1) \<Longrightarrow> fs1 path \<noteq> None"
  by (auto simp: download_pdf_def Let_def split: http.splits if_splits)

lemma upload_indep:
  "fs path \<noteq> None \<Longrightarrow> fs' path \<noteq> None \<Longrightarrow>
     upload_pdf_to_azure az fs path = upload_pdf_to_azure az fs' path"
  by (auto simp: upload_pdf_to_azure_def Let_def split: option.splits)

lemma fetch_document_indep:
  "fst (fetch_document w fs temp s) = fst (fetch_document w fs' temp s)"
proof (cases "index (split_on (CHR 0x27) s) 1")
  case (Inl e)
  then show ?thesis by (simp add: fetch_document_def)
next
  case (Inr p)
  obtain r fs1 where d1: "download_pdf w p fs = (r, fs1)" by (cases "download_pdf w p fs")
  obtain r' fs1' where d2: "download_pdf w p fs' = (r', fs1')" by (cases "download_pdf w p fs'")
  have rr: "r' = r" using download_pdf_result_indep [of w p fs fs'] d1 d2 by simp
  show ?thesis
  proof (cases r)
    case None
    then show ?thesis using Inr d1 d2 rr by (simp add: fetch_document_def clean_up_def)
  next
    case (Some path)
    have "fs1 path \<noteq> None" "fs1' path \<noteq> None"
      using download_pdf_file_present d1 d2 rr Some by blast+
    then have "upload_pdf_to_azure (azure w) fs1 path = upload_pdf_to_azure (azure w) fs1' path"
      by (rule upload_indep)
    then show ?thesis using Inr d1 d2 rr Some by (simp add: fetch_document_def clean_up_def)
  qed
qed

lemma parse_order_row_indep:
  "fst (parse_order_row w fs cells) = fst (parse_order_row w fs' cells)"
  using fetch_document_indep [of w fs _ _ fs']
  by (simp add: parse_order_row_def split: sum.splits option.splits)

lemma fetch_document_error: "fst (fetch_document w fs temp s) = Inl e \<Longrightarrow> e \<noteq> RequestException"
  by (auto simp: fetch_document_def index_def clean_up_def
           split: sum.splits prod.splits option.splits if_splits)

lemma parse_order_row_error: "fst (parse_order_row w fs cells) = Inl e \<Longrightarrow> e \<noteq> RequestException"
  using fetch_document_error [of w fs _ _ e] display_fields_cases [of cells]
  by (auto simp: parse_order_row_def split: sum.splits option.splits if_splits)

lemma parse_order_row_short:
  "length cells < 5 \<Longrightarrow> parse_order_row w fs cells = (Inl IndexError, fs)"
  by (simp add: parse_order_row_def display_fields_short)

lemma results_in_order_map_Inr: "results_in_order (map Inr vs) = Inr vs"
  by (induction vs) auto

lemma results_in_order_Inr: "results_in_order rs = Inr vs \<Longrightarrow> rs = map Inr vs"
  by (induction rs arbitrary: vs) (auto split: sum.splits)

lemma results_in_order_Inl:
  "results_in_order rs = Inl e \<Longrightarrow> Inl e \<in> set rs"
  by (induction rs) (auto split: sum.splits)

lemma results_in_order_fails:
  "Inl e \<in> set rs \<Longrightarrow> \<exists>e'. results_in_order rs = Inl e'"
  by (induction rs) (auto split: sum.splits)

lemma executor_map_indep:
  assumes "\<And>i fs fs'. fst (task i fs) = fst (task i fs')"
  shows "executor_map task n order fs = results_in_order (map (\<lambda>i. fst (task i fs0)) [0..<n])"
proof -
  have "\<And>i. fst (task i (fs_when_run task (filter (\<lambda>j. j < n) order) i fs)) = fst (task i fs0)"
    by (rule assms)
  then show ?thesis by (simp add: executor_map_def)
qed

lemma dict_get_set_same: "dict_get (dict_set k v d) k = Some v"
  by (induction d) (auto simp: dict_get_def)

lemma dict_get_set_other: "k' \<noteq> k \<Longrightarrow> dict_get (dict_set k v d) k' = dict_get d k'"
  by (induction d) (auto simp: dict_get_def)

lemma get_case_details_no_table:
  assumes "reply (sess ctype regno regyr japtcha) = Response status soup"
    and "\<not> raise_for_status status" and "2 \<le> length (h5s soup)"
    and "first_table soup = None"
  shows "get_case_details sess ctype regno regyr japtcha = Inr (Some (heading_data soup))"
  using assms by (simp add: get_case_details_def heading_data_def Let_def)

lemma get_case_details_table:
  assumes "reply (sess ctype regno regyr japtcha) = Response status soup"
    and "\<not> raise_for_status status" and "2 \<le> length (h5s soup)"
    and "first_table soup = Some trs"
  shows "get_case_details sess ctype regno regyr japtcha =
     (case results_in_order
             (map (\<lambda>i. fst (parse_order_row (worker (sess ctype regno regyr japtcha) i) fs0 (tl trs ! i)))
                  [0..<length (tl trs)]) of
        Inl e \<Rightarrow> Inl e
      | Inr orders \<Rightarrow> Inr (Some (dict_set ''orders'' (PList (map PDict orders)) (heading_data soup))))"
proof -
  let ?env = "sess ctype regno regyr japtcha"
  let ?task = "\<lambda>i fs. parse_order_row (worker ?env i) fs (tl trs ! i)"
  let ?rs = "map (\<lambda>i. fst (?task i fs0)) [0..<length (tl trs)]"
  have ex: "executor_map ?task (length (tl trs)) (completion ?env) (disk ?env) = results_in_order ?rs"
    by (rule executor_map_indep) (rule parse_order_row_indep)
  have noreq: "results_in_order ?rs \<noteq> Inl RequestException"
  proof
    assume "results_in_order ?rs = Inl RequestException"
    then have "Inl RequestException \<in> set ?rs" by (rule results_in_order_Inl)
    then show False using parse_order_row_error by (auto simp del: upt_Suc) (metis)
  qed
  show ?thesis
    using assms ex noreq
    by (simp add: get_case_details_def heading_data_def Let_def split: sum.splits)
qed

lemma heading_data_nonempty: "heading_data soup \<noteq> []"
  by (simp add: heading_data_def Let_def)

lemma dict_set_nonempty: "dict_set k v d \<noteq> []"
  by (cases d) (auto split: if_splits)

lemma heading_data_blank:
  "length (spans (h5s soup ! 1)) < 2 \<Longrightarrow>
     dict_get (heading_data soup) ''status'' = Some (PStr [])
     \<and> dict_get (heading_data soup) ''next_date'' = Some (PStr [])"
  by (simp add: heading_data_def Let_def dict_get_def)

text \<open>
  C2, as amended. A page with a success status and at least two heading blocks, the second
  of which has fewer than two \<^verbatim>\<open>span\<close> elements, is not answered with "no case": the
  resolver keeps the empty strings for \<^verbatim>\<open>status\<close> and \<^verbatim>\<open>next_date\<close>, so every record it
  returns has both empty, and without a table it returns the record at once.
\<close>

theorem few_spans_still_a_case:
  assumes "reply (sess ctype regno regyr japtcha) = Response status soup"
    and "\<not> raise_for_status status"
    and "2 \<le> length (h5s soup)"
    and "length (spans (h5s soup ! 1)) < 2"
  shows "get_case_details sess ctype regno regyr japtcha \<noteq> Inr None
     \<and> (\<forall>d. get_case_details sess ctype regno regyr japtcha = Inr (Some d) \<longrightarrow>
            dict_get d ''status'' = Some (PStr []) \<and> dict_get d ''next_date'' = Some (PStr []))
     \<and> (first_table soup = None \<longrightarrow>
            get_case_details sess ctype regno regyr japtcha = Inr (Some (heading_data soup)))"
proof (cases "first_table soup")
  case None
  from get_case_details_no_table [of sess ctype regno regyr japtcha, OF assms(1,2,3) None] heading_data_blank [OF assms(4)]
  show ?thesis by simp
next
  case (Some trs)
  from get_case_details_table [of sess ctype regno regyr japtcha, OF assms(1,2,3) Some, of Map.empty] heading_data_blank [OF assms(4)]
  show ?thesis
    by (auto simp: Some dict_get_set_other split: sum.splits)
qed

theorem few_spans_still_a_case_witness:
  "get_case_details portal_one_span ''CS(COMM)'' ''1'' ''2023'' ''x7k2'' \<noteq> Inr None
   \<and> get_case_details portal_one_span ''CS(COMM)'' ''1'' ''2023'' ''x7k2''
       = Inr (Some (heading_data (case_page [''Pending''] None)))"
proof -
  have r: "reply (portal_one_span ''CS(COMM)'' ''1'' ''2023'' ''x7k2'')
             = Response 200 (case_page [''Pending''] None)"
    by (simp add: portal_one_span_def answer_def)
  have s: "\<not> raise_for_status 200" by (simp add: raise_for_status_def)
  have h: "2 \<le> length (h5s (case_page [''Pending''] None))" by (simp add: case_page_def)
  have f: "length (spans (h5s (case_page [''Pending''] None) ! 1)) < 2" by (simp add: case_page_def)
  have t: "first_table (case_page [''Pending''] None) = None" by (simp add: case_page_def)
  show ?thesis
    using few_spans_still_a_case [of portal_one_span "''CS(COMM)''" "''1''" "''2023''" "''x7k2''", OF r s h f] t
    by simp
qed

text \<open>
  C2 as stated says that such a page gives "no case". A page whose second heading has
  the single span \<^verbatim>\<open>Pending\<close> and no table gives a record with empty status and date.
\<close>

theorem one_span_page_is_a_case_counterexample:
  "get_case_details portal_one_span ''CS(COMM)'' ''1'' ''2023'' ''x7k2''
     = Inr (Some (case_data [] []))"
  by code_simp


lemma failing_task_in_results:
  assumes "i < n" and "f i = Inl e"
  shows "Inl e \<in> set (map f [0..<n])"
proof -
  have "i \<in> set [0..<n]" using assms(1) by simp
  then have "f i \<in> f ` set [0..<n]" by (rule imageI)
  then show ?thesis unfolding set_map assms(2) .
qed

text \<open>
  C4, as amended. A data row with fewer than five cells makes the extractor raise
  \<open>IndexError\<close> for that row, on any disk and for any worker. Nothing absorbs the
  exception: the lookup of the case raises (that error, or the one of an earlier row), and
  the inner loop of the driver ends with it at that case number, the miss counter and the
  collection as they were.
\<close>

theorem short_row_aborts_case:
  assumes "reply (sess case_type (str case_no) (str year) japtcha) = Response status soup"
    and "\<not> raise_for_status status"
    and "2 \<le> length (h5s soup)"
    and "first_table soup = Some trs"
    and "i < length (tl trs)"
    and "length (tl trs ! i) < 5"
  shows "(\<forall>w fs. parse_order_row w fs (tl trs ! i) = (Inl IndexError, fs))
     \<and> (\<exists>e. get_case_details sess case_type (str case_no) (str year) japtcha = Inl e
            \<and> inner_loop sess japtcha case_type year case_no misses coll
                = Some (Some e, case_no, misses, coll))"
proof -
  let ?env = "sess case_type (str case_no) (str year) japtcha"
  let ?rs = "map (\<lambda>i. fst (parse_order_row (worker ?env i) Map.empty (tl trs ! i)))
               [0..<length (tl trs)]"
  have row: "\<forall>w fs. parse_order_row w fs (tl trs ! i) = (Inl IndexError, fs)"
    using assms(6) by (simp add: parse_order_row_short)
  have "fst (parse_order_row (worker ?env i) Map.empty (tl trs ! i)) = Inl IndexError"
    by (simp only: row fst_conv)
  with assms(5) have "Inl IndexError \<in> set ?rs"
    by (rule failing_task_in_results)
  then obtain e where e: "results_in_order ?rs = Inl e"
    using results_in_order_fails by blast
  have g: "get_case_details sess case_type (str case_no) (str year) japtcha = Inl e"
    using get_case_details_table [of sess case_type "str case_no" "str year" japtcha,
            OF assms(1,2,3,4), of Map.empty] e
    by simp
  have "inner_loop sess japtcha case_type year case_no misses coll
          = Some (Some e, case_no, misses, coll)"
    by (subst inner_loop.simps) (simp add: g)
  with row g show ?thesis by blast
qed

theorem short_row_aborts_case_witness:
  "parse_order_row w_ok Map.empty short_row = (Inl IndexError, Map.empty)
   \<and> (\<exists>e. get_case_details portal_short_row ''CS(COMM)'' (str 1) (str 2023) ''x7k2'' = Inl e
          \<and> inner_loop portal_short_row ''x7k2'' ''CS(COMM)'' 2023 1 0 []
               = Some (Some e, 1, 0, []))"
proof -
  let ?pg = "case_page [''Pending'', ''12-05-2024''] (Some [plain_row, short_row])"
  have r: "reply (portal_short_row ''CS(COMM)'' (str 1) (str 2023) ''x7k2'') = Response 200 ?pg"
    by (simp add: portal_short_row_def answer_def)
  have s: "\<not> raise_for_status 200" by (simp add: raise_for_status_def)
  have h: "2 \<le> length (h5s ?pg)" by (simp add: case_page_def)
  have t: "first_table ?pg = Some [[], plain_row, short_row]" by (simp add: case_page_def)
  have i: "1 < length (tl [[], plain_row, short_row])" by simp
  have l: "length (tl [[], plain_row, short_row] ! 1) < 5" by (simp add: short_row_def)
  show ?thesis
    using short_row_aborts_case [of portal_short_row "''CS(COMM)''" 1 2023 "''x7k2''",
            OF r s h t i l, of 0 "[]"]
    by simp
qed

lemma inner_loop_raises:
  "get_case_details sess case_type (str case_no) (str year) japtcha = Inl e \<Longrightarrow>
     inner_loop sess japtcha case_type year case_no misses coll = Some (Some e, case_no, misses, coll)"
  by (subst inner_loop.simps) simp

lemma while_years_first_raises:
  "get_case_details sess ''RFA(OS)(COMM)'' (str 1) (str 2023) japtcha = Inl e \<Longrightarrow>
     while_years sess japtcha FROM_YEAR [] = Some (Some e, [])"
  by (subst while_years.simps)
     (simp add: FROM_YEAR_def REQUIRED_CASE_TYPES_def inner_loop_raises)

lemma get_captcha_launch_ok: "get_captcha launch_ok = Some ''x7k2''"
  by code_simp

lemma str_1: "str 1 = ''1''"
  by code_simp

lemma str_2023: "str 2023 = ''2023''"
  by code_simp

text \<open>
  C4 as stated says that only the row is aborted and the case resolution completes. With
  a table of one good row and one row of four cells the lookup raises \<open>IndexError\<close>, and
  the crawl ends with it at its first probe, nothing stored.
\<close>

theorem short_row_ends_crawl_counterexample:
  "get_case_details portal_short_row ''RFA(OS)(COMM)'' ''1'' ''2023'' ''x7k2'' = Inl IndexError
   \<and> main launch_ok portal_short_row = Some (Some IndexError, [])"
proof -
  have g: "get_case_details portal_short_row ''RFA(OS)(COMM)'' ''1'' ''2023'' ''x7k2'' = Inl IndexError"
    by code_simp
  then have "while_years portal_short_row ''x7k2'' FROM_YEAR [] = Some (Some IndexError, [])"
    by (intro while_years_first_raises) (simp add: str_1 str_2023)
  then show ?thesis using g by (simp add: main_def get_captcha_launch_ok)
qed

text \<open>
  C1. The claim: when the download or the upload of a document fails, the record simply
  has no document URL, and neither the case nor the crawl is aborted. Evaluated at a row
  with a link whose download is refused with status 500: \<^verbatim>\<open>download_pdf\<close> returns \<^verbatim>\<open>None\<close>,
  the upload is skipped, and \<^verbatim>\<open>clean_up(None)\<close> raises \<open>TypeError\<close>; the lookup of the
  case raises it, and the crawl ends with it at its first probe.
\<close>

theorem refused_download_ends_crawl:
  "fst (parse_order_row w_500 Map.empty link_row) = Inl TypeError
   \<and> get_case_details portal_refused_download ''RFA(OS)(COMM)'' ''1'' ''2023'' ''x7k2''
       = Inl TypeError
   \<and> main launch_ok portal_refused_download = Some (Some TypeError, [])"
proof -
  have p: "fst (parse_order_row w_500 Map.empty link_row) = Inl TypeError"
    by code_simp
  have g: "get_case_details portal_refused_download ''RFA(OS)(COMM)'' ''1'' ''2023'' ''x7k2''
             = Inl TypeError"
    by code_simp
  then have "while_years portal_refused_download ''x7k2'' FROM_YEAR [] = Some (Some TypeError, [])"
    by (intro while_years_first_raises) (simp add: str_1 str_2023)
  then show ?thesis using p g by (simp add: main_def get_captcha_launch_ok)
qed

text \<open>
  C7. When the resolver returns a record for a page with a table, the \<^verbatim>\<open>orders\<close> of the
  record are as many as the rows after the header row, the \<open>i\<close>-th is what the extractor
  gives for the \<open>i\<close>-th of them (on whatever disk it runs), and the record is the same
  for every order in which the workers of the pool take the rows.
\<close>

theorem orders_follow_rows:
  assumes "reply (sess ctype regno regyr japtcha) = Response status soup"
    and "first_table soup = Some trs"
    and "get_case_details sess ctype regno regyr japtcha = Inr (Some d)"
  shows "\<exists>os. dict_get d ''orders'' = Some (PList (map PDict os))
       \<and> length os = length (tl trs)
       \<and> (\<forall>i<length (tl trs). \<forall>fs.
             fst (parse_order_row (worker (sess ctype regno regyr japtcha) i) fs (tl trs ! i))
               = Inr (os ! i))
       \<and> (\<forall>order. get_case_details (reordered order sess) ctype regno regyr japtcha
                     = Inr (Some d))"
proof -
  let ?env = "sess ctype regno regyr japtcha"
  let ?rs = "map (\<lambda>i. fst (parse_order_row (worker ?env i) Map.empty (tl trs ! i)))
               [0..<length (tl trs)]"
  have st: "\<not> raise_for_status status" and hs: "2 \<le> length (h5s soup)"
    using assms(1,3) by (auto simp: get_case_details_def Let_def split: if_splits)
  note tab = get_case_details_table [of _ ctype regno regyr japtcha, OF _ st hs assms(2), of _ Map.empty]
  from tab [of sess, OF assms(1)] assms(3)
  obtain os where os: "results_in_order ?rs = Inr os"
    and d: "d = dict_set ''orders'' (PList (map PDict os)) (heading_data soup)"
    by (auto split: sum.splits)
  have rs: "?rs = map Inr os" using os by (rule results_in_order_Inr)
  have "length ?rs = length os" by (simp only: rs length_map)
  moreover have "length ?rs = length (tl trs)" by simp
  ultimately have len: "length os = length (tl trs)" by simp
  have nth: "\<forall>i<length (tl trs). \<forall>fs.
       fst (parse_order_row (worker ?env i) fs (tl trs ! i)) = Inr (os ! i)"
  proof (intro allI impI)
    fix i fs
    assume i: "i < length (tl trs)"
    have "fst (parse_order_row (worker ?env i) Map.empty (tl trs ! i)) = ?rs ! i"
      using i by simp
    also have "\<dots> = map Inr os ! i" by (simp only: rs)
    also have "\<dots> = Inr (os ! i)" using i len by simp
    finally have "fst (parse_order_row (worker ?env i) Map.empty (tl trs ! i)) = Inr (os ! i)" .
    then show "fst (parse_order_row (worker ?env i) fs (tl trs ! i)) = Inr (os ! i)"
      using parse_order_row_indep [of "worker ?env i" fs "tl trs ! i" Map.empty] by simp
  qed
  have ord: "\<forall>order. get_case_details (reordered order sess) ctype regno regyr japtcha = Inr (Some d)"
  proof
    fix order
    have r: "reply (reordered order sess ctype regno regyr japtcha) = Response status soup"
      using assms(1) by (simp add: reordered_def)
    have w: "worker (reordered order sess ctype regno regyr japtcha) = worker ?env"
      by (simp add: reordered_def)
    show "get_case_details (reordered order sess) ctype regno regyr japtcha = Inr (Some d)"
      using tab [of "reordered order sess", OF r] os d by (simp add: w)
  qed
  have "dict_get d ''orders'' = Some (PList (map PDict os))"
    by (simp add: d dict_get_set_same)
  with len nth ord show ?thesis by blast
qed

theorem orders_follow_rows_witness:
  "get_case_details portal_two_rows ''CS(COMM)'' ''1'' ''2023'' ''x7k2'' = Inr (Some two_rows_data)
   \<and> dict_get two_rows_data ''orders'' = Some (PList [PDict link_row_record, PDict plain_row_record])
   \<and> get_case_details (reordered [0, 1] portal_two_rows) ''CS(COMM)'' ''1'' ''2023'' ''x7k2''
       = Inr (Some two_rows_data)"
proof -
  let ?pg = "case_page [''Pending'', ''12-05-2024''] (Some [link_row, plain_row])"
  have r: "reply (portal_two_rows ''CS(COMM)'' ''1'' ''2023'' ''x7k2'') = Response 200 ?pg"
    by (simp add: portal_two_rows_def answer_def)
  have t: "first_table ?pg = Some [[], link_row, plain_row]" by (simp add: case_page_def)
  have g: "get_case_details portal_two_rows ''CS(COMM)'' ''1'' ''2023'' ''x7k2'' = Inr (Some two_rows_data)"
    by code_simp
  have o: "dict_get two_rows_data ''orders'' = Some (PList [PDict link_row_record, PDict plain_row_record])"
    by (simp add: two_rows_data_def dict_get_def)
  show ?thesis
    using orders_follow_rows [of portal_two_rows "''CS(COMM)''" "''1''" "''2023''" "''x7k2''", OF r t g] g o
    by blast
qed

section \<open>The decimal text of an integer\<close>

lemma of_char_digit_char:
  assumes "d < 10"
  shows "of_char (digit_char d) = (48 + d :: nat)"
proof -
  have "48 + d < 256" using assms by linarith
  then have "(48 + d) mod 256 = 48 + d" by (rule mod_less)
  then show ?thesis by (simp only: digit_char_def of_char_of)
qed

lemma digit_char_inj:
  assumes "a < 10" and "b < 10" and "digit_char a = digit_char b"
  shows "a = b"
proof -
  have "48 + a = (of_char (digit_char a) :: nat)"
    using assms(1) by (simp only: of_char_digit_char)
  also have "\<dots> = of_char (digit_char b)" by (simp only: assms(3))
  also have "\<dots> = 48 + b" using assms(2) by (simp only: of_char_digit_char)
  finally show ?thesis by simp
qed

lemma digit_char_not: "d < 10 \<Longrightarrow> of_char c < (48::nat) \<Longrightarrow> c \<noteq> digit_char d"
proof
  assume d: "d < 10" and c: "of_char c < (48::nat)" and e: "c = digit_char d"
  have "of_char c = (48 + d :: nat)" unfolding e using d by (rule of_char_digit_char)
  then show False using c by simp
qed

lemma digits_nonempty: "digits n \<noteq> []"
  by (subst digits.simps) simp

lemma digits_chars: "c \<in> set (digits n) \<Longrightarrow> \<exists>d<10. c = digit_char d"
proof (induction n rule: digits.induct)
  case (1 n)
  show ?case
  proof (cases "n < 10")
    case True
    then show ?thesis using "1.prems" by (subst (asm) digits.simps) auto
  next
    case False
    have "c \<in> set (digits (n div 10)) \<or> c = digit_char (n mod 10)"
      using "1.prems" False by (subst (asm) digits.simps) auto
    then show ?thesis
    proof
      assume "c \<in> set (digits (n div 10))"
      then show ?thesis using "1.IH" False by simp
    next
      assume "c = digit_char (n mod 10)"
      moreover have "n mod 10 < 10" by simp
      ultimately show ?thesis by blast
    qed
  qed
qed

lemma digits_inj: "digits a = digits b \<Longrightarrow> a = b"
proof (induction a arbitrary: b rule: digits.induct)
  case (1 a)
  have da: "digits a = (if a < 10 then [digit_char a] else digits (a div 10) @ [digit_char (a mod 10)])"
    by (rule digits.simps)
  have db: "digits b = (if b < 10 then [digit_char b] else digits (b div 10) @ [digit_char (b mod 10)])"
    by (rule digits.simps)
  show ?case
  proof (cases "a < 10")
    case True
    note a = True
    show ?thesis
    proof (cases "b < 10")
      case True
      then show ?thesis using a da db "1.prems" digit_char_inj by simp
    next
      case False
      then have "[digit_char a] = digits (b div 10) @ [digit_char (b mod 10)]"
        using a da db "1.prems" by simp
      then show ?thesis using digits_nonempty [of "b div 10"] by simp
    qed
  next
    case False
    note a = False
    show ?thesis
    proof (cases "b < 10")
      case True
      then have "digits (a div 10) @ [digit_char (a mod 10)] = [digit_char b]"
        using a da db "1.prems" by simp
      then show ?thesis using digits_nonempty [of "a div 10"] by simp
    next
      case False
      then have "digits (a div 10) @ [digit_char (a mod 10)] = digits (b div 10) @ [digit_char (b mod 10)]"
        using a da db "1.prems" by simp
      then have q: "digits (a div 10) = digits (b div 10)"
        and r: "digit_char (a mod 10) = digit_char (b mod 10)"
        by simp_all
      have "a div 10 = b div 10" using "1.IH" a q by simp
      moreover have "a mod 10 = b mod 10" using r digit_char_inj [of "a mod 10" "b mod 10"] by simp
      ultimately show ?thesis by (metis div_mult_mod_eq)
    qed
  qed
qed

lemma digits_no_minus: "digits n \<noteq> CHR ''-'' # s"
proof
  assume "digits n = CHR ''-'' # s"
  then have "CHR ''-'' \<in> set (digits n)" by simp
  then obtain d where "d < 10" "CHR ''-'' = digit_char d" using digits_chars by blast
  then show False using digit_char_not [of d "CHR ''-''"] by simp
qed

lemma str_inj: "str i = str j \<Longrightarrow> i = j"
proof -
  assume e: "str i = str j"
  show ?thesis
  proof (cases "i < 0")
    case True
    note i = True
    show ?thesis
    proof (cases "j < 0")
      case True
      then have "digits (nat (- i)) = digits (nat (- j))" using e i by (simp add: str_def)
      then have "nat (- i) = nat (- j)" by (rule digits_inj)
      then show ?thesis using i True by simp
    next
      case False
      then show ?thesis using e i digits_no_minus [of "nat j" "digits (nat (- i))"]
        by (simp add: str_def)
    qed
  next
    case False
    note i = False
    show ?thesis
    proof (cases "j < 0")
      case True
      then show ?thesis using e i digits_no_minus [of "nat i" "digits (nat (- j))"]
        by (simp add: str_def)
    next
      case False
      then have "digits (nat i) = digits (nat j)" using e i by (simp add: str_def)
      then have "nat i = nat j" by (rule digits_inj)
      then show ?thesis using i False by simp
    qed
  qed
qed

lemma str_no_slash: "CHR ''/'' \<notin> set (str i)"
proof
  assume "CHR ''/'' \<in> set (str i)"
  then have "CHR ''/'' \<in> set (digits (nat (- i))) \<or> CHR ''/'' \<in> set (digits (nat i))"
    by (auto simp: str_def split: if_splits)
  then obtain d where "d < 10" "CHR ''/'' = digit_char d" using digits_chars by blast
  then show False using digit_char_not [of d "CHR ''/''"] by simp
qed

lemma str_20: "str 20 = ''20''"
  by code_simp


lemma str_eq_20: "str i = ''20'' \<longleftrightarrow> i = 20"
  using str_inj [of i 20] by (auto simp: str_20)

section \<open>Enumeration Driver: the inner loop\<close>

lemma get_case_details_nonempty:
  assumes "get_case_details sess ctype regno regyr japtcha = Inr (Some d)"
  shows "d \<noteq> []"
proof (cases "reply (sess ctype regno regyr japtcha)")
  case ConnectionFailed
  then show ?thesis using assms by (simp add: get_case_details_def)
next
  case (Response status soup)
  have st: "\<not> raise_for_status status" and hs: "2 \<le> length (h5s soup)"
    using assms Response by (auto simp: get_case_details_def Let_def split: if_splits)
  show ?thesis
  proof (cases "first_table soup")
    case None
    from get_case_details_no_table [of sess ctype regno regyr japtcha, OF Response st hs None] assms
    show ?thesis by (auto simp: heading_data_nonempty)
  next
    case (Some trs)
    from get_case_details_table [of sess ctype regno regyr japtcha, OF Response st hs Some, of Map.empty] assms
    show ?thesis by (auto simp: dict_set_nonempty split: sum.splits)
  qed
qed

lemma inner_loop_miss:
  assumes "get_case_details sess case_type (str case_no) (str year) japtcha = Inr None"
  shows "inner_loop sess japtcha case_type year case_no m coll =
     (if m + 1 = 20 then Some (None, case_no, m + 1, coll)
      else inner_loop sess japtcha case_type year (case_no + 1) (m + 1) coll)"
  by (subst inner_loop.simps) (simp add: assms after_probe_def)

lemma inner_loop_hit:
  assumes "get_case_details sess case_type (str case_no) (str year) japtcha = Inr (Some d)"
  shows "inner_loop sess japtcha case_type year case_no m coll =
     (if m = 20
      then Some (None, case_no, m,
             coll @ [PDict (dict_set ''case_info''
                       (PStr (case_type @ ''/'' @ str case_no @ ''/'' @ str year)) d)])
      else inner_loop sess japtcha case_type year (case_no + 1) m
             (coll @ [PDict (dict_set ''case_info''
                       (PStr (case_type @ ''/'' @ str case_no @ ''/'' @ str year)) d)]))"
  using get_case_details_nonempty [OF assms]
  by (subst inner_loop.simps) (simp add: assms after_probe_def save_to_mongodb_def)

lemma miss_count_nonneg: "0 \<le> miss_count sess japtcha case_type year n k"
  by (induction k arbitrary: n) auto

lemma inner_loop_advance:
  assumes "m + miss_count sess japtcha case_type year n k < 20"
    and "\<forall>i<k. \<forall>e. get_case_details sess case_type (str (n + int i)) (str year) japtcha \<noteq> Inl e"
  shows "inner_loop sess japtcha case_type year n m coll =
         inner_loop sess japtcha case_type year (n + int k)
           (m + miss_count sess japtcha case_type year n k)
           (coll @ hit_docs sess japtcha case_type year n k)"
  using assms
proof (induction k arbitrary: n m coll)
  case 0
  then show ?case by simp
next
  case (Suc k)
  let ?g = "get_case_details sess case_type (str n) (str year) japtcha"
  have later: "\<forall>i<k. \<forall>e. get_case_details sess case_type (str (n + 1 + int i)) (str year) japtcha \<noteq> Inl e"
  proof (intro allI impI)
    fix i e
    assume "i < k"
    then have si: "Suc i < Suc k" by simp
    have eq: "n + int (Suc i) = n + 1 + int i" by simp
    from Suc.prems(2) si
    have "get_case_details sess case_type (str (n + int (Suc i))) (str year) japtcha \<noteq> Inl e"
      by blast
    then show "get_case_details sess case_type (str (n + 1 + int i)) (str year) japtcha \<noteq> Inl e"
      unfolding eq .
  qed
  have here: "\<forall>e. ?g \<noteq> Inl e" using Suc.prems(2) by force
  have shift: "n + 1 + int k = n + int (Suc k)" by simp
  show ?case
  proof (cases ?g)
    case (Inl e)
    then show ?thesis using here by simp
  next
    case (Inr result)
    show ?thesis
    proof (cases result)
      case None
      have g: "?g = Inr None" using Inr None by simp
      have bound: "(m + 1) + miss_count sess japtcha case_type year (n + 1) k < 20"
        using Suc.prems(1) g by simp
      then have "m + 1 \<noteq> 20"
        using miss_count_nonneg [of sess japtcha case_type year "n + 1" k] by linarith
      then have "inner_loop sess japtcha case_type year n m coll
                 = inner_loop sess japtcha case_type year (n + 1) (m + 1) coll"
        by (simp add: inner_loop_miss [OF g])
      also have "\<dots> = inner_loop sess japtcha case_type year (n + 1 + int k)
                 (m + 1 + miss_count sess japtcha case_type year (n + 1) k)
                 (coll @ hit_docs sess japtcha case_type year (n + 1) k)"
        by (rule Suc.IH [OF bound later])
      finally show ?thesis unfolding shift by (simp add: g add.assoc)
    next
      case (Some d)
      have g: "?g = Inr (Some d)" using Inr Some by simp
      let ?doc = "PDict (dict_set ''case_info''
                       (PStr (case_type @ ''/'' @ str n @ ''/'' @ str year)) d)"
      have bound: "m + miss_count sess japtcha case_type year (n + 1) k < 20"
        using Suc.prems(1) g by simp
      then have "m \<noteq> 20"
        using miss_count_nonneg [of sess japtcha case_type year "n + 1" k] by linarith
      then have "inner_loop sess japtcha case_type year n m coll
                 = inner_loop sess japtcha case_type year (n + 1) m (coll @ [?doc])"
        by (simp add: inner_loop_hit [OF g])
      also have "\<dots> = inner_loop sess japtcha case_type year (n + 1 + int k)
                 (m + miss_count sess japtcha case_type year (n + 1) k)
                 ((coll @ [?doc]) @ hit_docs sess japtcha case_type year (n + 1) k)"
        by (rule Suc.IH [OF bound later])
      finally show ?thesis unfolding shift by (simp add: g)
    qed
  qed
qed


text \<open>
  C5. The miss counter is not reset by a successful lookup. From case number \<open>n\<close> with
  counter \<open>m\<close>, let the next \<open>k\<close> lookups raise nothing and bring the count of misses to
  19; let the lookup after them give a record, and the one after that "no case". Then the
  loop ends at that last case number with the counter at 20, the collection extended by
  the documents of the \<open>k\<close> lookups and the document of the hit.
\<close>

theorem hit_does_not_reset_miss_streak:
  assumes "m + miss_count sess japtcha case_type year n k = 19"
    and "\<forall>i<k. \<forall>e. get_case_details sess case_type (str (n + int i)) (str year) japtcha \<noteq> Inl e"
    and "get_case_details sess case_type (str (n + int k)) (str year) japtcha = Inr (Some d)"
    and "get_case_details sess case_type (str (n + int k + 1)) (str year) japtcha = Inr None"
  shows "inner_loop sess japtcha case_type year n m coll =
     Some (None, n + int k + 1, 20,
           coll @ hit_docs sess japtcha case_type year n k
             @ [PDict (dict_set ''case_info''
                  (PStr (case_type @ ''/'' @ str (n + int k) @ ''/'' @ str year)) d)])"
proof -
  let ?doc = "PDict (dict_set ''case_info''
                  (PStr (case_type @ ''/'' @ str (n + int k) @ ''/'' @ str year)) d)"
  let ?hits = "hit_docs sess japtcha case_type year n k"
  have "m + miss_count sess japtcha case_type year n k < 20" using assms(1) by simp
  from inner_loop_advance [OF this assms(2)]
  have "inner_loop sess japtcha case_type year n m coll
        = inner_loop sess japtcha case_type year (n + int k) 19 (coll @ ?hits)"
    by (simp add: assms(1))
  also have "\<dots> = inner_loop sess japtcha case_type year (n + int k + 1) 19 ((coll @ ?hits) @ [?doc])"
    by (simp add: inner_loop_hit [OF assms(3)])
  also have "\<dots> = Some (None, n + int k + 1, 20, (coll @ ?hits) @ [?doc])"
    by (simp add: inner_loop_miss [OF assms(4)])
  finally show ?thesis by simp
qed

lemma portal_only_20_never_raises:
  "get_case_details portal_only_20 ctype regno regyr japtcha \<noteq> Inl e"
  by (simp add: get_case_details_def portal_only_20_def answer_def no_answer_def
        raise_for_status_def case_page_def Let_def)

lemma portal_only_20_answer:
  "get_case_details portal_only_20 ctype regno regyr japtcha
     = (if regno = ''20'' then Inr (Some (case_data ''Pending'' ''12-05-2024'')) else Inr None)"
  by (simp add: get_case_details_def portal_only_20_def answer_def no_answer_def
        raise_for_status_def case_page_def case_data_def Let_def strip_def is_space_def
        replace_nbsp_def)

lemma portal_only_20_misses:
  "\<forall>i<k. n + int i \<noteq> 20 \<Longrightarrow>
     miss_count portal_only_20 japtcha case_type year n k = int k
     \<and> hit_docs portal_only_20 japtcha case_type year n k = []"
proof (induction k arbitrary: n)
  case 0
  then show ?case by simp
next
  case (Suc k)
  have "n + int 0 \<noteq> 20" using Suc.prems by blast
  then have here: "n \<noteq> 20" by simp
  have "\<forall>i<k. n + 1 + int i \<noteq> 20"
  proof (intro allI impI)
    fix i assume "i < k"
    then have "n + int (Suc i) \<noteq> 20" using Suc.prems by blast
    then show "n + 1 + int i \<noteq> 20" by simp
  qed
  from Suc.IH [OF this] here show ?case
    by (simp add: portal_only_20_answer str_eq_20)
qed

theorem hit_does_not_reset_miss_streak_witness:
  "inner_loop portal_only_20 ''x7k2'' ''CS(COMM)'' 2023 1 0 [] = Some (None, 21, 20, [case_20_doc])"
proof -
  have before: "\<forall>i<19. 1 + int i \<noteq> 20" by auto
  note ms = portal_only_20_misses [OF before, of "''x7k2''" "''CS(COMM)''" 2023]
  have h1: "0 + miss_count portal_only_20 ''x7k2'' ''CS(COMM)'' 2023 1 19 = 19"
    using ms by simp
  have h2: "\<forall>i<19. \<forall>e. get_case_details portal_only_20 ''CS(COMM)'' (str (1 + int i)) (str 2023) ''x7k2'' \<noteq> Inl e"
    by (simp add: portal_only_20_never_raises)
  have h3: "get_case_details portal_only_20 ''CS(COMM)'' (str (1 + int 19)) (str 2023) ''x7k2''
              = Inr (Some (case_data ''Pending'' ''12-05-2024''))"
    by (simp add: portal_only_20_answer str_eq_20)
  have h4: "get_case_details portal_only_20 ''CS(COMM)'' (str (1 + int 19 + 1)) (str 2023) ''x7k2'' = Inr None"
    by (simp add: portal_only_20_answer str_eq_20)
  have d: "[] @ hit_docs portal_only_20 ''x7k2'' ''CS(COMM)'' 2023 1 19
             @ [PDict (dict_set ''case_info''
                  (PStr (''CS(COMM)'' @ ''/'' @ str (1 + int 19) @ ''/'' @ str 2023))
                  (case_data ''Pending'' ''12-05-2024''))] = [case_20_doc]"
    using ms by (simp add: str_20 str_2023 case_data_def case_20_doc_def)
  have n: "1 + int 19 + 1 = (21::int)" by simp
  show ?thesis
    using hit_does_not_reset_miss_streak [OF h1 h2 h3 h4, of "[]"]
    unfolding d n .
qed

section \<open>Enumeration Driver: case types and the collection\<close>

lemma inner_loop_exit_threshold:
  assumes "inner_loop sess japtcha case_type year n m coll = Some (None, n', m', coll')"
  shows "m' = 20"
proof -
  have "fst r = None \<longrightarrow> fst (snd (snd r)) = 20"
    if "inner_loop sess japtcha case_type year n m coll = Some r" for r
    using that
  proof (induction rule: inner_loop.raw_induct [rotated 1, consumes 1])
    case (1 f sess japtcha case_type year case_no m coll r)
    then show ?case
      by (auto split: sum.splits prod.splits if_splits)
  qed
  from this [OF assms] show ?thesis by simp
qed

lemma inner_loop_collection:
  assumes "inner_loop sess japtcha case_type year n m coll = Some r"
  shows "\<exists>k. fst (snd r) = n + int k
           \<and> snd (snd (snd r)) = coll @ hit_docs sess japtcha case_type year n (Suc k)"
  using assms
proof (induction rule: inner_loop.raw_induct [rotated 1, consumes 1])
  case (1 f sess japtcha case_type year n m coll r)
  let ?g = "get_case_details sess case_type (str n) (str year) japtcha"
  show ?case
  proof (cases ?g)
    case (Inl e)
    then have "r = (Some e, n, m, coll)" using 1(2) by simp
    then have "fst (snd r) = n + int 0
       \<and> snd (snd (snd r)) = coll @ hit_docs sess japtcha case_type year n (Suc 0)"
      using Inl by simp
    then show ?thesis by blast
  next
    case (Inr result)
    obtain m1 coll1 where ap: "after_probe case_type year n result m coll = (m1, coll1)"
      by (cases "after_probe case_type year n result m coll")
    have c1: "coll1 = coll @ hit_docs sess japtcha case_type year n (Suc 0)"
    proof (cases result)
      case None
      then show ?thesis using ap Inr by (simp add: after_probe_def)
    next
      case (Some d)
      then have "d \<noteq> []" using Inr get_case_details_nonempty by blast
      then show ?thesis using ap Inr Some by (simp add: after_probe_def save_to_mongodb_def)
    qed
    show ?thesis
    proof (cases "m1 = 20")
      case True
      then have "r = (None, n, m1, coll1)" using 1(2) Inr ap by simp
      then have "fst (snd r) = n + int 0
         \<and> snd (snd (snd r)) = coll @ hit_docs sess japtcha case_type year n (Suc 0)"
        using c1 by simp
      then show ?thesis by blast
    next
      case False
      then have "f sess japtcha case_type year (n + 1) m1 coll1 = Some r"
        using 1(2) Inr ap by simp
      from 1(1) [OF this] obtain k where
        k: "fst (snd r) = n + 1 + int k"
           "snd (snd (snd r)) = coll1 @ hit_docs sess japtcha case_type year (n + 1) (Suc k)"
        by blast
      have "hit_docs sess japtcha case_type year n (Suc (Suc k))
            = hit_docs sess japtcha case_type year n (Suc 0)
              @ hit_docs sess japtcha case_type year (n + 1) (Suc k)"
        by simp
      then have "fst (snd r) = n + int (Suc k)
         \<and> snd (snd (snd r)) = coll @ hit_docs sess japtcha case_type year n (Suc (Suc k))"
        using k c1 by simp
      then show ?thesis by blast
    qed
  qed
qed


lemma inner_loop_terminates:
  assumes "m < 20"
    and "20 \<le> m + miss_count sess japtcha case_type year n k"
  shows "\<exists>r. inner_loop sess japtcha case_type year n m coll = Some r"
  using assms
proof (induction k arbitrary: n m coll)
  case 0
  then show ?case by simp
next
  case (Suc k)
  let ?g = "get_case_details sess case_type (str n) (str year) japtcha"
  show ?case
  proof (cases ?g)
    case (Inl e)
    then show ?thesis by (simp add: inner_loop_raises)
  next
    case (Inr result)
    show ?thesis
    proof (cases result)
      case None
      have g: "?g = Inr None" using Inr None by simp
      show ?thesis
      proof (cases "m + 1 = 20")
        case True
        then show ?thesis by (simp add: inner_loop_miss [OF g])
      next
        case False
        then have less: "m + 1 < 20" using Suc.prems(1) by simp
        have "20 \<le> (m + 1) + miss_count sess japtcha case_type year (n + 1) k"
          using Suc.prems(2) g by simp
        from Suc.IH [OF less this]
        show ?thesis using False by (simp add: inner_loop_miss [OF g])
      qed
    next
      case (Some d)
      have g: "?g = Inr (Some d)" using Inr Some by simp
      have ne: "m \<noteq> 20" using Suc.prems(1) by simp
      have "20 \<le> m + miss_count sess japtcha case_type year (n + 1) k"
        using Suc.prems(2) g by simp
      from Suc.IH [OF Suc.prems(1) this]
      show ?thesis using ne by (simp add: inner_loop_hit [OF g])
    qed
  qed
qed

lemma for_case_types_step:
  assumes "inner_loop sess japtcha case_type year 1 0 coll = Some (None, n, m, coll')"
  shows "for_case_types sess japtcha year (case_type # rest) coll
         = for_case_types sess japtcha year rest coll'"
  using assms by simp

lemma portal_down_no_case: "get_case_details portal_down ctype regno regyr japtcha = Inr None"
  by (simp add: get_case_details_def portal_down_def no_answer_def)

lemma portal_down_miss_count: "miss_count portal_down japtcha case_type year n k = int k"
  by (induction k arbitrary: n) (simp_all add: portal_down_no_case)

lemma portal_down_hit_docs: "hit_docs portal_down japtcha case_type year n k = []"
  by (induction k arbitrary: n) (simp_all add: portal_down_no_case)

lemma portal_down_inner_loop:
  "inner_loop portal_down japtcha case_type year 1 0 coll = Some (None, 20, 20, coll)"
proof -
  have "0 + miss_count portal_down japtcha case_type year 1 19 < 20"
    by (simp add: portal_down_miss_count)
  moreover have "\<forall>i<19. \<forall>e. get_case_details portal_down case_type (str (1 + int i)) (str year) japtcha \<noteq> Inl e"
    by (simp add: portal_down_no_case)
  ultimately have "inner_loop portal_down japtcha case_type year 1 0 coll
      = inner_loop portal_down japtcha case_type year (1 + int 19)
          (0 + miss_count portal_down japtcha case_type year 1 19)
          (coll @ hit_docs portal_down japtcha case_type year 1 19)"
    by (rule inner_loop_advance)
  also have "\<dots> = inner_loop portal_down japtcha case_type year 20 19 coll"
    by (simp add: portal_down_miss_count portal_down_hit_docs)
  also have "\<dots> = Some (None, 20, 20, coll)"
    by (simp add: inner_loop_miss [OF portal_down_no_case])
  finally show ?thesis .
qed

lemma inner_loop_reaches_threshold:
  assumes "m < 20"
    and "20 \<le> m + miss_count sess japtcha case_type year n k"
    and "\<forall>i<k. \<forall>e. get_case_details sess case_type (str (n + int i)) (str year) japtcha \<noteq> Inl e"
  shows "\<exists>j<k. m + miss_count sess japtcha case_type year n j = 19
           \<and> get_case_details sess case_type (str (n + int j)) (str year) japtcha = Inr None
           \<and> inner_loop sess japtcha case_type year n m coll
               = Some (None, n + int j, 20, coll @ hit_docs sess japtcha case_type year n j)"
  using assms
proof (induction k arbitrary: n m coll)
  case 0
  then show ?case by simp
next
  case (Suc k)
  let ?g = "get_case_details sess case_type (str n) (str year) japtcha"
  have later: "\<forall>i<k. \<forall>e. get_case_details sess case_type (str (n + 1 + int i)) (str year) japtcha \<noteq> Inl e"
  proof (intro allI impI)
    fix i e
    assume "i < k"
    then have si: "Suc i < Suc k" by simp
    have eq: "n + int (Suc i) = n + 1 + int i" by simp
    from Suc.prems(3) si
    have "get_case_details sess case_type (str (n + int (Suc i))) (str year) japtcha \<noteq> Inl e"
      by blast
    then show "get_case_details sess case_type (str (n + 1 + int i)) (str year) japtcha \<noteq> Inl e"
      unfolding eq .
  qed
  have here: "\<forall>e. ?g \<noteq> Inl e" using Suc.prems(3) by force
  show ?case
  proof (cases ?g)
    case (Inl e)
    then show ?thesis using here by simp
  next
    case (Inr result)
    show ?thesis
    proof (cases result)
      case None
      have g: "?g = Inr None" using Inr None by simp
      show ?thesis
      proof (cases "m + 1 = 20")
        case True
        have "m + miss_count sess japtcha case_type year n 0 = 19" using True by simp
        moreover have "get_case_details sess case_type (str (n + int 0)) (str year) japtcha = Inr None"
          using g by simp
        moreover have "inner_loop sess japtcha case_type year n m coll
               = Some (None, n + int 0, 20, coll @ hit_docs sess japtcha case_type year n 0)"
          using True by (simp add: inner_loop_miss [OF g])
        ultimately show ?thesis by blast
      next
        case False
        then have less: "m + 1 < 20" using Suc.prems(1) by simp
        have reach: "20 \<le> (m + 1) + miss_count sess japtcha case_type year (n + 1) k"
          using Suc.prems(2) g by simp
        from Suc.IH [OF less reach later, of coll] obtain j where j: "j < k"
          "m + 1 + miss_count sess japtcha case_type year (n + 1) j = 19"
          "get_case_details sess case_type (str (n + 1 + int j)) (str year) japtcha = Inr None"
          "inner_loop sess japtcha case_type year (n + 1) (m + 1) coll
             = Some (None, n + 1 + int j, 20, coll @ hit_docs sess japtcha case_type year (n + 1) j)"
          by blast
        have eq: "n + int (Suc j) = n + 1 + int j" by simp
        have "Suc j < Suc k" using j(1) by simp
        moreover have "m + miss_count sess japtcha case_type year n (Suc j) = 19"
          using j(2) g by simp
        moreover have "get_case_details sess case_type (str (n + int (Suc j))) (str year) japtcha = Inr None"
          unfolding eq by (rule j(3))
        moreover have "inner_loop sess japtcha case_type year n m coll
               = Some (None, n + int (Suc j), 20, coll @ hit_docs sess japtcha case_type year n (Suc j))"
          unfolding eq using False j(4) g by (simp add: inner_loop_miss [OF g])
        ultimately show ?thesis by blast
      qed
    next
      case (Some d)
      have g: "?g = Inr (Some d)" using Inr Some by simp
      let ?doc = "PDict (dict_set ''case_info''
                       (PStr (case_type @ ''/'' @ str n @ ''/'' @ str year)) d)"
      have ne: "m \<noteq> 20" using Suc.prems(1) by simp
      have reach: "20 \<le> m + miss_count sess japtcha case_type year (n + 1) k"
        using Suc.prems(2) g by simp
      from Suc.IH [OF Suc.prems(1) reach later, of "coll @ [?doc]"] obtain j where j: "j < k"
        "m + miss_count sess japtcha case_type year (n + 1) j = 19"
        "get_case_details sess case_type (str (n + 1 + int j)) (str year) japtcha = Inr None"
        "inner_loop sess japtcha case_type year (n + 1) m (coll @ [?doc])
           = Some (None, n + 1 + int j, 20,
                   (coll @ [?doc]) @ hit_docs sess japtcha case_type year (n + 1) j)"
        by blast
      have eq: "n + int (Suc j) = n + 1 + int j" by simp
      have "Suc j < Suc k" using j(1) by simp
      moreover have "m + miss_count sess japtcha case_type year n (Suc j) = 19"
        using j(2) g by simp
      moreover have "get_case_details sess case_type (str (n + int (Suc j))) (str year) japtcha = Inr None"
        unfolding eq by (rule j(3))
      moreover have "inner_loop sess japtcha case_type year n m coll
             = Some (None, n + int (Suc j), 20, coll @ hit_docs sess japtcha case_type year n (Suc j))"
        unfolding eq using ne j(4) g by (simp add: inner_loop_hit [OF g])
      ultimately show ?thesis by blast
    qed
  qed
qed

lemma miss_count_append:
  "miss_count sess japtcha case_type year n (a + b)
     = miss_count sess japtcha case_type year n a
       + miss_count sess japtcha case_type year (n + int a) b"
proof (induction a arbitrary: n)
  case 0
  show ?case by simp
next
  case (Suc a)
  show ?case using Suc.IH [of "n + 1"] by (simp add: add.assoc)
qed

lemma portal_only_20_inner_loop:
  "inner_loop portal_only_20 japtcha case_type year 1 0 coll
     = Some (None, 21, 20,
             coll @ [stored_document case_type 20 year (case_data ''Pending'' ''12-05-2024'')])"
proof -
  let ?d = "case_data ''Pending'' ''12-05-2024''"
  have before: "\<forall>i<19. 1 + int i \<noteq> 20" by auto
  note ms = portal_only_20_misses [OF before, of japtcha case_type year]
  have "0 + miss_count portal_only_20 japtcha case_type year 1 19 < 20" using ms by simp
  moreover have "\<forall>i<19. \<forall>e. get_case_details portal_only_20 case_type (str (1 + int i)) (str year) japtcha \<noteq> Inl e"
    by (simp add: portal_only_20_never_raises)
  ultimately have "inner_loop portal_only_20 japtcha case_type year 1 0 coll
      = inner_loop portal_only_20 japtcha case_type year (1 + int 19)
          (0 + miss_count portal_only_20 japtcha case_type year 1 19)
          (coll @ hit_docs portal_only_20 japtcha case_type year 1 19)"
    by (rule inner_loop_advance)
  also have "\<dots> = inner_loop portal_only_20 japtcha case_type year 20 19 coll"
    using ms by simp
  also have "\<dots> = inner_loop portal_only_20 japtcha case_type year 21 19
                      (coll @ [stored_document case_type 20 year ?d])"
  proof -
    have g: "get_case_details portal_only_20 case_type (str 20) (str year) japtcha = Inr (Some ?d)"
      by (simp add: portal_only_20_answer str_20)
    show ?thesis by (simp add: inner_loop_hit [OF g] stored_document_def)
  qed
  also have "\<dots> = Some (None, 21, 20, coll @ [stored_document case_type 20 year ?d])"
  proof -
    have g: "get_case_details portal_only_20 case_type (str 21) (str year) japtcha = Inr None"
      by (simp add: portal_only_20_answer str_eq_20)
    show ?thesis by (simp add: inner_loop_miss [OF g])
  qed
  finally show ?thesis .
qed


lemma hit_docs_append:
  "hit_docs sess japtcha case_type year n (a + b)
     = hit_docs sess japtcha case_type year n a
       @ hit_docs sess japtcha case_type year (n + int a) b"
proof (induction a arbitrary: n)
  case 0
  show ?case by simp
next
  case (Suc a)
  show ?case using Suc.IH [of "n + 1"] by (simp add: add.assoc)
qed

text \<open>
  C6. Let the lookups of the case numbers 1, 2, ... of a case type contain 20 answers
  "no case" among the first \<open>k\<close>, none of these lookups raising. Then the inner loop of
  that type, started at case number 1 with the counter at 0, ends: at the lookup that is
  the 20th miss, with the counter at 20 and the documents of the hits before it stored.
  The loop over the case types then goes on with exactly the next type of the catalog,
  whose inner loop starts at case number 1 with the counter at 0 on that collection; after
  the last type the loop over the types of that year is over.
\<close>

theorem threshold_advances_case_type:
  assumes "20 \<le> miss_count sess japtcha case_type year 1 k"
    and "\<forall>i<k. \<forall>e. get_case_details sess case_type (str (1 + int i)) (str year) japtcha \<noteq> Inl e"
  shows "\<exists>j<k. miss_count sess japtcha case_type year 1 j = 19
       \<and> get_case_details sess case_type (str (1 + int j)) (str year) japtcha = Inr None
       \<and> inner_loop sess japtcha case_type year 1 0 coll
           = Some (None, 1 + int j, 20, coll @ hit_docs sess japtcha case_type year 1 j)
       \<and> for_case_types sess japtcha year (case_type # next_type # rest) coll
           = (case inner_loop sess japtcha next_type year 1 0
                     (coll @ hit_docs sess japtcha case_type year 1 j) of
                None \<Rightarrow> None
              | Some (Some e, _, _, c) \<Rightarrow> Some (Some e, c)
              | Some (None, _, _, c) \<Rightarrow> for_case_types sess japtcha year rest c)
       \<and> for_case_types sess japtcha year [case_type] coll
           = Some (None, coll @ hit_docs sess japtcha case_type year 1 j)"
proof -
  have "20 \<le> 0 + miss_count sess japtcha case_type year 1 k" using assms(1) by simp
  from inner_loop_reaches_threshold [OF _ this assms(2), of coll]
  obtain j where j: "j < k" "miss_count sess japtcha case_type year 1 j = 19"
    "get_case_details sess case_type (str (1 + int j)) (str year) japtcha = Inr None"
    "inner_loop sess japtcha case_type year 1 0 coll
       = Some (None, 1 + int j, 20, coll @ hit_docs sess japtcha case_type year 1 j)"
    by auto
  have "for_case_types sess japtcha year (case_type # next_type # rest) coll
           = (case inner_loop sess japtcha next_type year 1 0
                     (coll @ hit_docs sess japtcha case_type year 1 j) of
                None \<Rightarrow> None
              | Some (Some e, _, _, c) \<Rightarrow> Some (Some e, c)
              | Some (None, _, _, c) \<Rightarrow> for_case_types sess japtcha year rest c)"
    by (simp add: j(4))
  moreover have "for_case_types sess japtcha year [case_type] coll
           = Some (None, coll @ hit_docs sess japtcha case_type year 1 j)"
    by (simp add: j(4))
  ultimately show ?thesis using j by blast
qed

lemma portal_only_20_reaches_threshold:
  "20 \<le> miss_count portal_only_20 japtcha case_type year 1 21"
proof -
  have before: "\<forall>i<19. 1 + int i \<noteq> 20" by auto
  have "miss_count portal_only_20 japtcha case_type year 1 (19 + 2)
        = miss_count portal_only_20 japtcha case_type year 1 19
          + miss_count portal_only_20 japtcha case_type year (1 + int 19) 2"
    by (rule miss_count_append)
  moreover have "miss_count portal_only_20 japtcha case_type year 1 19 = 19"
    using portal_only_20_misses [OF before, of japtcha case_type year] by simp
  moreover have "miss_count portal_only_20 japtcha case_type year (1 + int 19) 2 = 1"
    by (simp add: numeral_2_eq_2 portal_only_20_answer str_eq_20)
  ultimately show ?thesis by simp
qed

theorem threshold_advances_case_type_witness:
  "for_case_types portal_only_20 ''x7k2'' 2023 [''CS(COMM)'', ''RFA(COMM)''] []
     = Some (None, [case_20_doc,
                    stored_document ''RFA(COMM)'' 20 2023 (case_data ''Pending'' ''12-05-2024'')])"
proof -
  have h1: "20 \<le> miss_count portal_only_20 ''x7k2'' ''CS(COMM)'' 2023 1 21"
    by (rule portal_only_20_reaches_threshold)
  have h2: "\<forall>i<21. \<forall>e. get_case_details portal_only_20 ''CS(COMM)'' (str (1 + int i)) (str 2023) ''x7k2'' \<noteq> Inl e"
    by (simp add: portal_only_20_never_raises)
  have doc: "stored_document ''CS(COMM)'' 20 2023 (case_data ''Pending'' ''12-05-2024'') = case_20_doc"
    by (simp add: stored_document_def str_20 str_2023 case_data_def case_20_doc_def)
  from threshold_advances_case_type [OF h1 h2, of "[]" "''RFA(COMM)''" "[]"]
  obtain j where j:
    "inner_loop portal_only_20 ''x7k2'' ''CS(COMM)'' 2023 1 0 []
       = Some (None, 1 + int j, 20, [] @ hit_docs portal_only_20 ''x7k2'' ''CS(COMM)'' 2023 1 j)"
    "for_case_types portal_only_20 ''x7k2'' 2023 [''CS(COMM)'', ''RFA(COMM)''] []
       = (case inner_loop portal_only_20 ''x7k2'' ''RFA(COMM)'' 2023 1 0
                 ([] @ hit_docs portal_only_20 ''x7k2'' ''CS(COMM)'' 2023 1 j) of
            None \<Rightarrow> None
          | Some (Some e, _, _, c) \<Rightarrow> Some (Some e, c)
          | Some (None, _, _, c) \<Rightarrow> for_case_types portal_only_20 ''x7k2'' 2023 [] c)"
    by blast
  have "[] @ hit_docs portal_only_20 ''x7k2'' ''CS(COMM)'' 2023 1 j = [case_20_doc]"
    using j(1) portal_only_20_inner_loop [of "''x7k2''" "''CS(COMM)''" 2023 "[]"] doc by simp
  then show ?thesis
    using j(2) portal_only_20_inner_loop [of "''x7k2''" "''RFA(COMM)''" 2023 "[case_20_doc]"]
    by simp
qed

lemma hit_docs_members:
  "x \<in> set (hit_docs sess japtcha case_type year n k) \<Longrightarrow>
     \<exists>i d. n \<le> i \<and> x = stored_document case_type i year d"
proof (induction k arbitrary: n)
  case 0
  then show ?case by simp
next
  case (Suc k)
  from Suc.prems
  have "x \<in> set (hit_docs sess japtcha case_type year (n + 1) k)
        \<or> (\<exists>d. x = stored_document case_type n year d)"
    by (auto simp: stored_document_def split: sum.splits option.splits)
  then show ?case
  proof
    assume "x \<in> set (hit_docs sess japtcha case_type year (n + 1) k)"
    from Suc.IH [OF this] obtain i d where "n + 1 \<le> i" "x = stored_document case_type i year d"
      by blast
    then have "n \<le> i \<and> x = stored_document case_type i year d" by simp
    then show ?thesis by blast
  next
    assume "\<exists>d. x = stored_document case_type n year d"
    then show ?thesis by blast
  qed
qed

lemma stored_document_case_info:
  "stored_document case_type i year d = PDict doc \<Longrightarrow>
     dict_get doc ''case_info'' = Some (PStr (case_type @ ''/'' @ str i @ ''/'' @ str year))"
  by (auto simp: stored_document_def dict_get_set_same)

lemma stored_document_inj:
  assumes "stored_document case_type i year d = stored_document case_type n year d'"
  shows "i = n"
proof -
  obtain doc where doc: "stored_document case_type i year d = PDict doc"
    by (simp add: stored_document_def)
  have "dict_get doc ''case_info'' = Some (PStr (case_type @ ''/'' @ str i @ ''/'' @ str year))"
    using doc by (rule stored_document_case_info)
  moreover have "dict_get doc ''case_info'' = Some (PStr (case_type @ ''/'' @ str n @ ''/'' @ str year))"
    using doc assms stored_document_case_info [of case_type n year d' doc] by simp
  ultimately have "str i = str n" by simp
  then show ?thesis by (rule str_inj)
qed

lemma stored_document_not_later:
  "n < n' \<Longrightarrow> stored_document case_type n year d \<notin> set (hit_docs sess japtcha case_type year n' k)"
proof
  assume less: "n < n'"
    and "stored_document case_type n year d \<in> set (hit_docs sess japtcha case_type year n' k)"
  from hit_docs_members [OF this(2)] obtain i d' where
    i: "n' \<le> i" "stored_document case_type n year d = stored_document case_type i year d'"
    by blast
  from stored_document_inj [OF i(2)] have "n = i" .
  with less i(1) show False by simp
qed

text \<open>
  C10. When a lookup gives a record, the document stored for it is the record with
  \<^verbatim>\<open>case_info\<close> equal to the type, a slash, the decimal case number, a slash and the
  decimal year, and the two numbers contain no slash. It is appended to the collection in
  the same iteration, before the threshold test and the next lookup. Whenever the inner
  loop ends, its collection is the one before the lookup, then this document, then the
  documents of later case numbers only, none of which is this document. And the loop does
  end with such a collection when the counter is below 20 and the later lookups bring it to
  20.
\<close>

theorem resolved_case_stored_once:
  assumes "get_case_details sess case_type (str case_no) (str year) japtcha = Inr (Some d)"
  shows "(\<exists>doc. stored_document case_type case_no year d = PDict doc
            \<and> dict_get doc ''case_info''
                = Some (PStr (case_type @ ''/'' @ str case_no @ ''/'' @ str year)))
     \<and> CHR ''/'' \<notin> set (str case_no) \<and> CHR ''/'' \<notin> set (str year)
     \<and> after_probe case_type year case_no (Some d) m coll
         = (m, coll @ [stored_document case_type case_no year d])
     \<and> (\<forall>r. inner_loop sess japtcha case_type year case_no m coll = Some r \<longrightarrow>
           (\<exists>k. snd (snd (snd r))
                  = coll @ stored_document case_type case_no year d
                           # hit_docs sess japtcha case_type year (case_no + 1) k
                \<and> stored_document case_type case_no year d
                    \<notin> set (hit_docs sess japtcha case_type year (case_no + 1) k)))
     \<and> (\<forall>k. m < 20 \<and> 20 \<le> m + miss_count sess japtcha case_type year (case_no + 1) k \<longrightarrow>
           (\<exists>r j. inner_loop sess japtcha case_type year case_no m coll = Some r
                \<and> snd (snd (snd r))
                    = coll @ stored_document case_type case_no year d
                             # hit_docs sess japtcha case_type year (case_no + 1) j
                \<and> stored_document case_type case_no year d
                    \<notin> set (hit_docs sess japtcha case_type year (case_no + 1) j)))"
proof -
  let ?doc = "stored_document case_type case_no year d"
  have ne: "d \<noteq> []" using assms by (rule get_case_details_nonempty)
  have info: "\<exists>doc. ?doc = PDict doc
            \<and> dict_get doc ''case_info''
                = Some (PStr (case_type @ ''/'' @ str case_no @ ''/'' @ str year))"
    by (simp add: stored_document_def dict_get_set_same)
  have ap: "after_probe case_type year case_no (Some d) m coll = (m, coll @ [?doc])"
    using ne by (simp add: after_probe_def save_to_mongodb_def stored_document_def)
  have run: "\<exists>k. snd (snd (snd r))
                  = coll @ ?doc # hit_docs sess japtcha case_type year (case_no + 1) k
                \<and> ?doc \<notin> set (hit_docs sess japtcha case_type year (case_no + 1) k)"
    if "inner_loop sess japtcha case_type year case_no m coll = Some r" for r
  proof -
    from inner_loop_collection [OF that] obtain k where
      "snd (snd (snd r)) = coll @ hit_docs sess japtcha case_type year case_no (Suc k)"
      by blast
    then have "snd (snd (snd r))
                  = coll @ ?doc # hit_docs sess japtcha case_type year (case_no + 1) k"
      using assms by (simp add: stored_document_def)
    moreover have "?doc \<notin> set (hit_docs sess japtcha case_type year (case_no + 1) k)"
      by (rule stored_document_not_later) simp
    ultimately show ?thesis by blast
  qed
  have total: "\<exists>r j. inner_loop sess japtcha case_type year case_no m coll = Some r
                \<and> snd (snd (snd r))
                    = coll @ ?doc # hit_docs sess japtcha case_type year (case_no + 1) j
                \<and> ?doc \<notin> set (hit_docs sess japtcha case_type year (case_no + 1) j)"
    if k: "m < 20 \<and> 20 \<le> m + miss_count sess japtcha case_type year (case_no + 1) k" for k
  proof -
    have "20 \<le> m + miss_count sess japtcha case_type year case_no (Suc k)"
      using k assms by simp
    with k inner_loop_terminates [of m sess japtcha case_type year case_no "Suc k" coll]
    obtain r where r: "inner_loop sess japtcha case_type year case_no m coll = Some r"
      by blast
    from run [OF r] r show ?thesis by blast
  qed
  from info ap run total str_no_slash [of case_no] str_no_slash [of year] show ?thesis
    by blast
qed

theorem resolved_case_stored_once_witness:
  "stored_document ''CS(COMM)'' 20 2023 (case_data ''Pending'' ''12-05-2024'') = case_20_doc
   \<and> after_probe ''CS(COMM)'' 2023 20 (Some (case_data ''Pending'' ''12-05-2024'')) 19 []
       = (19, [case_20_doc])
   \<and> (\<exists>r. inner_loop portal_only_20 ''x7k2'' ''CS(COMM)'' 2023 20 19 [] = Some r
          \<and> snd (snd (snd r)) = [case_20_doc])"
proof -
  have g: "get_case_details portal_only_20 ''CS(COMM)'' (str 20) (str 2023) ''x7k2''
             = Inr (Some (case_data ''Pending'' ''12-05-2024''))"
    by (simp add: portal_only_20_answer str_20)
  have s: "stored_document ''CS(COMM)'' 20 2023 (case_data ''Pending'' ''12-05-2024'') = case_20_doc"
    by (simp add: stored_document_def str_20 str_2023 case_data_def case_20_doc_def)
  have later: "hit_docs portal_only_20 ''x7k2'' ''CS(COMM)'' 2023 (20 + 1) j = []" for j
    by (rule portal_only_20_misses [THEN conjunct2]) simp
  have reach: "(19::int) < 20 \<and> 20 \<le> 19 + miss_count portal_only_20 ''x7k2'' ''CS(COMM)'' 2023 (20 + 1) 1"
    by (simp add: portal_only_20_answer str_eq_20)
  note inst = resolved_case_stored_once [OF g, of 19 "[]"]
  from inst reach obtain r j where
    "inner_loop portal_only_20 ''x7k2'' ''CS(COMM)'' 2023 20 19 [] = Some r"
    "snd (snd (snd r)) = [] @ stored_document ''CS(COMM)'' 20 2023 (case_data ''Pending'' ''12-05-2024'')
                             # hit_docs portal_only_20 ''x7k2'' ''CS(COMM)'' 2023 (20 + 1) j"
    by blast
  then have "\<exists>r. inner_loop portal_only_20 ''x7k2'' ''CS(COMM)'' 2023 20 19 [] = Some r
          \<and> snd (snd (snd r)) = [case_20_doc]"
    using s later by simp
  with inst s show ?thesis by simp
qed

section \<open>Enumeration Driver: termination\<close>














end
